theory Spec2Isabelle
  imports Main "HOL-Library.Code_Target_Nat" "HOL-Library.Sublist" "HOL-Library.List_Lexorder" "HOL-Library.Product_Lexorder"
begin

section \<open>Python strings\<close>

text \<open>
  A Python \<open>str\<close> is a sequence of Unicode code points, and \<open>len\<close> counts code
  points. The terms handled by the two scripts are Japanese, so a string is modelled as
  a list of code points (natural numbers), not as a list of 8-bit characters.
  String comparison in Python is lexicographic on code points, which is the order of
  \<open>HOL-Library.List_Lexorder\<close> on \<open>nat list\<close>.
\<close>

type_synonym pystr = "nat list"

text \<open>The characters removed by \<open>str.strip()\<close> and matched by \<open>\s\<close>: those for
  which \<open>str.isspace\<close> holds.\<close>

definition is_space :: "nat \<Rightarrow> bool" where
  "is_space c \<longleftrightarrow>
     (0x09 \<le> c \<and> c \<le> 0x0D) \<or> (0x1C \<le> c \<and> c \<le> 0x20) \<or> c = 0x85 \<or> c = 0xA0 \<or>
     c = 0x1680 \<or> (0x2000 \<le> c \<and> c \<le> 0x200A) \<or> c = 0x2028 \<or> c = 0x2029 \<or>
     c = 0x202F \<or> c = 0x205F \<or> c = 0x3000"

definition lstrip_by :: "(nat \<Rightarrow> bool) \<Rightarrow> pystr \<Rightarrow> pystr" where
  "lstrip_by p s = dropWhile p s"

definition rstrip_by :: "(nat \<Rightarrow> bool) \<Rightarrow> pystr \<Rightarrow> pystr" where
  "rstrip_by p s = rev (dropWhile p (rev s))"

definition strip_by :: "(nat \<Rightarrow> bool) \<Rightarrow> pystr \<Rightarrow> pystr" where
  "strip_by p s = rstrip_by p (lstrip_by p s)"

text \<open>\<open>s.strip()\<close> and \<open>s.rstrip()\<close>.\<close>

definition strip :: "pystr \<Rightarrow> pystr" where
  "strip s = strip_by is_space s"

definition rstrip :: "pystr \<Rightarrow> pystr" where
  "rstrip s = rstrip_by is_space s"

text \<open>\<open>s.strip(chars)\<close>.\<close>

definition strip_chars :: "pystr \<Rightarrow> pystr \<Rightarrow> pystr" where
  "strip_chars chars s = strip_by (\<lambda>c. c \<in> set chars) s"

text \<open>\<open>sub in s\<close>, \<open>s.startswith(sub)\<close>, \<open>s.endswith(sub)\<close>.\<close>

fun contains :: "pystr \<Rightarrow> pystr \<Rightarrow> bool" where
  "contains sub [] = (sub = [])"
| "contains sub (c # s) = (prefix sub (c # s) \<or> contains sub s)"

definition endswith :: "pystr \<Rightarrow> pystr \<Rightarrow> bool" where
  "endswith s sub = suffix sub s"

text \<open>\<open>s.find(sub, start)\<close> with \<open>0 \<le> start\<close>: the least index \<open>i \<ge> start\<close> at which
  \<open>sub\<close> occurs in \<open>s\<close>, or \<open>None\<close> for Python's \<open>-1\<close>.\<close>

fun find_from :: "nat \<Rightarrow> pystr \<Rightarrow> pystr \<Rightarrow> nat option" where
  "find_from i sub [] = (if sub = [] then Some i else None)"
| "find_from i sub (c # s) = (if prefix sub (c # s) then Some i else find_from (Suc i) sub s)"

definition find :: "pystr \<Rightarrow> pystr \<Rightarrow> nat option" where
  "find s sub = find_from 0 sub s"

definition find_at :: "pystr \<Rightarrow> pystr \<Rightarrow> nat \<Rightarrow> nat option" where
  "find_at s sub start = (if start \<le> length s then find_from start sub (drop start s) else None)"

text \<open>\<open>s.rfind(sub, 0, end)\<close> with \<open>0 \<le> end\<close>: the greatest index at which \<open>sub\<close>
  occurs inside \<open>s[0:end]\<close>.\<close>

definition rfind_upto :: "pystr \<Rightarrow> pystr \<Rightarrow> nat \<Rightarrow> nat option" where
  "rfind_upto s sub e =
     (let t = take e s;
          hits = filter (\<lambda>i. prefix sub (drop i t)) (rev [0 ..< Suc (length t)])
      in case hits of [] \<Rightarrow> None | i # _ \<Rightarrow> Some i)"

text \<open>\<open>s.count(c)\<close> for a one-character \<open>c\<close>.\<close>

definition count_char :: "nat \<Rightarrow> pystr \<Rightarrow> nat" where
  "count_char c s = length (filter (\<lambda>x. x = c) s)"

text \<open>\<open>sep.join(parts)\<close>.\<close>

fun join :: "pystr \<Rightarrow> pystr list \<Rightarrow> pystr" where
  "join sep [] = []"
| "join sep [w] = w"
| "join sep (w # v # ws) = w @ sep @ join sep (v # ws)"

text \<open>\<open>s.splitlines()\<close>: lines end at any of the line boundaries below, \<open>\r\n\<close> counts
  as one boundary, and a final boundary does not open an empty last line.\<close>

definition is_linebreak :: "nat \<Rightarrow> bool" where
  "is_linebreak c \<longleftrightarrow>
     (0x0A \<le> c \<and> c \<le> 0x0D) \<or> (0x1C \<le> c \<and> c \<le> 0x1E) \<or> c = 0x85 \<or> c = 0x2028 \<or> c = 0x2029"

fun after_break :: "nat \<Rightarrow> pystr \<Rightarrow> pystr" where
  "after_break c [] = []"
| "after_break c (d # s) = (if c = 0x0D \<and> d = 0x0A then s else d # s)"

function splitlines :: "pystr \<Rightarrow> pystr list" where
  "splitlines [] = []"
| "splitlines (c # s) =
     (if is_linebreak c then [] # splitlines (after_break c s)
      else (case splitlines s of [] \<Rightarrow> [[c]] | l # ls \<Rightarrow> (c # l) # ls))"
  by pat_completeness auto
termination
proof (relation "measure length")
  fix c :: nat and s :: pystr
  show "(after_break c s, c # s) \<in> measure length"
    by (cases s) auto
qed auto

section \<open>The Unicode tables and regular expressions of the Python library\<close>

text \<open>
  Both scripts call Python's Unicode database: \<open>\d\<close> and \<open>\w\<close> of \<open>re\<close>,
  \<open>str.isdigit\<close>, \<open>str.lower\<close> and \<open>unicodedata.normalize("NFKC", _)\<close>. These tables
  belong to the interpreter, not to the repository, so every function that uses them
  takes them as a parameter and every theorem holds for all tables.
\<close>

record unicode_db =
  re_digit :: "nat \<Rightarrow> bool"
  re_word :: "nat \<Rightarrow> bool"
  str_isdigit :: "nat \<Rightarrow> bool"
  nfkc :: "pystr \<Rightarrow> pystr"
  lower :: "pystr \<Rightarrow> pystr"

text \<open>
  The tables restricted to ASCII, for evaluating the functions on ASCII inputs: below
  U+0080 the decimal digits are \<open>0\<close>..\<open>9\<close>, the word characters are the letters, the
  digits and \<open>_\<close>, NFKC changes nothing and \<open>lower\<close> maps \<open>A\<close>..\<open>Z\<close> to \<open>a\<close>..\<open>z\<close>.
\<close>

definition ascii_digit :: "nat \<Rightarrow> bool" where
  "ascii_digit c \<longleftrightarrow> 0x30 \<le> c \<and> c \<le> 0x39"

definition ascii_word :: "nat \<Rightarrow> bool" where
  "ascii_word c \<longleftrightarrow>
     ascii_digit c \<or> (0x41 \<le> c \<and> c \<le> 0x5A) \<or> (0x61 \<le> c \<and> c \<le> 0x7A) \<or> c = 0x5F"

definition ascii_lower :: "pystr \<Rightarrow> pystr" where
  "ascii_lower s = map (\<lambda>c. if 0x41 \<le> c \<and> c \<le> 0x5A then c + 0x20 else c) s"

definition ascii_db :: unicode_db where
  "ascii_db = \<lparr> re_digit = ascii_digit, re_word = ascii_word, str_isdigit = ascii_digit,
                nfkc = (\<lambda>s. s), lower = ascii_lower \<rparr>"

text \<open>
  Regular expressions over code points, matched by derivatives. \<open>fullmatch\<close> asks that
  the whole string is in the language of the pattern and \<open>search\<close> that some substring
  is; for the patterns of the scripts, which have no back-references and no look-around
  apart from \<open>\b\<close> (handled where it occurs), this is what \<open>re.fullmatch\<close> and
  \<open>re.search\<close> decide.
\<close>

datatype rx = RNone | REps | RCls "nat \<Rightarrow> bool" | RAlt rx rx | RSeq rx rx | RStar rx

fun nullable :: "rx \<Rightarrow> bool" where
  "nullable RNone = False"
| "nullable REps = True"
| "nullable (RCls p) = False"
| "nullable (RAlt r s) = (nullable r \<or> nullable s)"
| "nullable (RSeq r s) = (nullable r \<and> nullable s)"
| "nullable (RStar r) = True"

fun deriv :: "nat \<Rightarrow> rx \<Rightarrow> rx" where
  "deriv c RNone = RNone"
| "deriv c REps = RNone"
| "deriv c (RCls p) = (if p c then REps else RNone)"
| "deriv c (RAlt r s) = RAlt (deriv c r) (deriv c s)"
| "deriv c (RSeq r s) =
     (if nullable r then RAlt (RSeq (deriv c r) s) (deriv c s) else RSeq (deriv c r) s)"
| "deriv c (RStar r) = RSeq (deriv c r) (RStar r)"

fun fullmatch :: "rx \<Rightarrow> pystr \<Rightarrow> bool" where
  "fullmatch r [] = nullable r"
| "fullmatch r (c # s) = fullmatch (deriv c r) s"

definition rany :: rx where "rany = RCls (\<lambda>c. True)"

definition search :: "rx \<Rightarrow> pystr \<Rightarrow> bool" where
  "search r s = fullmatch (RSeq (RStar rany) (RSeq r (RStar rany))) s"

text \<open>Pattern syntax: a literal character, a literal string, a character set,
  \<open>.\<close> (any character but a newline), \<open>r?\<close>, \<open>r+\<close>, \<open>r{n}\<close> and \<open>r{lo,hi}\<close>.\<close>

definition rchar :: "nat \<Rightarrow> rx" where "rchar c = RCls (\<lambda>x. x = c)"

definition rstr :: "pystr \<Rightarrow> rx" where "rstr s = foldr (\<lambda>c r. RSeq (rchar c) r) s REps"

definition roneof :: "pystr \<Rightarrow> rx" where "roneof cs = RCls (\<lambda>x. x \<in> set cs)"

definition rdot :: rx where "rdot = RCls (\<lambda>c. c \<noteq> 0x0A)"

definition ropt :: "rx \<Rightarrow> rx" where "ropt r = RAlt r REps"

definition rplus :: "rx \<Rightarrow> rx" where "rplus r = RSeq r (RStar r)"

fun rrep :: "nat \<Rightarrow> rx \<Rightarrow> rx" where
  "rrep 0 r = REps"
| "rrep (Suc n) r = RSeq r (rrep n r)"

fun rupto :: "nat \<Rightarrow> rx \<Rightarrow> rx" where
  "rupto 0 r = REps"
| "rupto (Suc n) r = ropt (RSeq r (rupto n r))"

definition rbetween :: "nat \<Rightarrow> nat \<Rightarrow> rx \<Rightarrow> rx" where
  "rbetween lo hi r = RSeq (rrep lo r) (rupto (hi - lo) r)"

section \<open>Pass 1: constants\<close>

definition MAX_TERMS_PER_COMPANY :: nat where "MAX_TERMS_PER_COMPANY = 10000"
definition MAX_TERM_CHARS :: nat where "MAX_TERM_CHARS = 40"
definition MIN_TERM_CHARS :: nat where "MIN_TERM_CHARS = 2"

text \<open>\<open>CONNECTORS\<close>: katakana middle dot, hyphen-minus, fullwidth hyphen-minus, hyphen
  (U+2010), solidus, fullwidth solidus. The same six characters are the argument of
  \<open>strip\<close> in \<open>flush_segment\<close> and in \<open>process_company_dir\<close>.\<close>

definition connector_chars :: pystr where
  "connector_chars = [0x30FB, 0x2D, 0xFF0D, 0x2010, 0x2F, 0xFF0F]"

definition CONNECTORS :: "pystr list" where
  "CONNECTORS = map (\<lambda>c. [c]) connector_chars"

section \<open>Pass 1: the Candidate Filter (\<open>_looks_bad\<close>)\<close>

text \<open>\<open>STOPWORDS\<close>, in the order of the source: tousha, honsho, juuyou, naiyou, baai, ika,
  nao, mata, oyobi, narabini, sonota, kaku, tou.\<close>

definition STOPWORDS :: "pystr list" where
  "STOPWORDS =
    [[0x5F53, 0x793E], [0x672C, 0x66F8], [0x91CD, 0x8981], [0x5185, 0x5BB9], [0x5834, 0x5408],
     [0x4EE5, 0x4E0B], [0x306A, 0x304A], [0x307E, 0x305F], [0x53CA, 0x3073],
     [0x4E26, 0x3073, 0x306B], [0x305D, 0x306E, 0x4ED6], [0x5404], [0x7B49]]"

text \<open>The characters of the patterns: nen (year) U+5E74, gatsu (month) U+6708, nichi (day)
  U+65E5, shou (chapter) U+7AE0, setsu (section) U+7BC0, kou (item) U+9805, ki (period)
  U+671F, dai (ordinal prefix) U+7B2C.\<close>

definition rd :: "unicode_db \<Rightarrow> rx" where "rd U = RCls (re_digit U)"

text \<open>\<open>^\d+$\<close>\<close>

definition RE_ONLY_DIGITS :: "unicode_db \<Rightarrow> rx" where
  "RE_ONLY_DIGITS U = rplus (rd U)"

text \<open>\<open>^[\d,.\-\<dots>]+$\<close> with the set: digits, comma, full stop, hyphen-minus, en dash
  U+2013, em dash U+2014, prolonged sound mark U+30FC.\<close>

definition RE_ONLY_NUM_PUNCT :: "unicode_db \<Rightarrow> rx" where
  "RE_ONLY_NUM_PUNCT U =
     rplus (RCls (\<lambda>c. re_digit U c \<or> c \<in> set [0x2C, 0x2E, 0x2D, 0x2013, 0x2014, 0x30FC]))"

text \<open>\<open>^[U+3041-U+3096]+$\<close>\<close>

definition RE_ONLY_HIRAGANA :: rx where
  "RE_ONLY_HIRAGANA = rplus (RCls (\<lambda>c. 0x3041 \<le> c \<and> c \<le> 0x3096))"

text \<open>\<open>^(?:\d{4}Y\d{1,2}M\d{1,2}D|\d{4}/\d{1,2}/\d{1,2}|\d{4}-\d{1,2}-\d{1,2})$\<close>\<close>

definition RE_DATE_LIKE :: "unicode_db \<Rightarrow> rx" where
  "RE_DATE_LIKE U =
     RAlt (RSeq (rrep 4 (rd U)) (RSeq (rchar 0x5E74) (RSeq (rbetween 1 2 (rd U))
             (RSeq (rchar 0x6708) (RSeq (rbetween 1 2 (rd U)) (rchar 0x65E5))))))
      (RAlt (RSeq (rrep 4 (rd U)) (RSeq (rchar 0x2F) (RSeq (rbetween 1 2 (rd U))
             (RSeq (rchar 0x2F) (rbetween 1 2 (rd U))))))
            (RSeq (rrep 4 (rd U)) (RSeq (rchar 0x2D) (RSeq (rbetween 1 2 (rd U))
             (RSeq (rchar 0x2D) (rbetween 1 2 (rd U)))))))"

text \<open>\<open>^(?:dai?\d+(?:shou|setsu|kou|ki)|\d+(?:shou|setsu|kou))$\<close>\<close>

definition RE_SECTION_LIKE :: "unicode_db \<Rightarrow> rx" where
  "RE_SECTION_LIKE U =
     RAlt (RSeq (ropt (rchar 0x7B2C)) (RSeq (rplus (rd U)) (roneof [0x7AE0, 0x7BC0, 0x9805, 0x671F])))
          (RSeq (rplus (rd U)) (roneof [0x7AE0, 0x7BC0, 0x9805]))"

text \<open>\<open>_looks_bad(term, company)\<close>: the tests in the order of the source, each one
  returning \<open>True\<close>. After the first test \<open>term\<close> is rebound to \<open>term.strip()\<close>, and
  all later tests read the stripped text. \<open>[0x68, 0x74, 0x74, 0x70]\<close> is \<open>http\<close>;
  the next literal is kabushiki-gaisha; the last pattern is \<open>[\W_]+\<close>.\<close>

definition looks_bad :: "unicode_db \<Rightarrow> pystr \<Rightarrow> pystr \<Rightarrow> bool" where
  "looks_bad U term0 company =
     (if term0 = [] then True
      else let term = strip term0 in
        if term = [] then True
        else if length term < MIN_TERM_CHARS \<or> length term > MAX_TERM_CHARS then True
        else if term \<in> set STOPWORDS then True
        else if fullmatch (RE_ONLY_DIGITS U) term then True
        else if fullmatch (RE_ONLY_NUM_PUNCT U) term then True
        else if fullmatch RE_ONLY_HIRAGANA term then True
        else if fullmatch (RE_DATE_LIKE U) term then True
        else if fullmatch (RE_SECTION_LIKE U) term then True
        else if contains [0x68, 0x74, 0x74, 0x70] (lower U term) then True
        else if contains [0x682A, 0x5F0F, 0x4F1A, 0x793E] term then True
        else let company_nfkc = nfkc U company in
          if term = company_nfkc then True
          else if company_nfkc \<noteq> [] \<and> contains company_nfkc term
                  \<and> length term \<le> length company_nfkc + 4 then True
          else if fullmatch (rplus (RCls (\<lambda>c. \<not> re_word U c \<or> c = 0x5F))) term then True
          else False)"

text \<open>The normalisation of a raw candidate in \<open>process_company_dir\<close>:
  \<open>term = _nfkc(raw_term).strip()\<close>, then \<open>term = term.strip(connectors)\<close>.\<close>

definition normalize_candidate :: "unicode_db \<Rightarrow> pystr \<Rightarrow> pystr" where
  "normalize_candidate U raw_term = strip_chars connector_chars (strip (nfkc U raw_term))"

section \<open>Pass 1: the Phrase Builder (\<open>extract_candidates\<close>)\<close>

text \<open>The kind that \<open>extract_candidates\<close> gives a token kept in a segment.\<close>

datatype kind = Noun | Connector

definition join_surfaces :: "pystr list \<Rightarrow> pystr" where
  "join_surfaces surfaces = strip (join [] surfaces)"

text \<open>
  The inner loop of \<open>flush_segment\<close> over \<open>j\<close> in \<open>range(i, min(len(segment), i + 6))\<close>:
  it runs over the window, appends each surface to \<open>phrase_parts\<close>, counts the nouns and
  recomputes \<open>phrase\<close>. The state is \<open>(noun_count, phrase_parts, phrase)\<close>; \<open>phrase\<close> is
  unbound (\<open>None\<close>) before the first iteration.
\<close>

fun window_loop :: "(pystr \<times> kind) list \<Rightarrow> nat \<times> pystr list \<times> pystr option
    \<Rightarrow> nat \<times> pystr list \<times> pystr option" where
  "window_loop [] st = st"
| "window_loop ((surface, k) # rest) (noun_count, phrase_parts, phrase) =
     (let phrase_parts' = phrase_parts @ [surface];
          noun_count' = (if k = Noun then noun_count + 1 else noun_count);
          phrase' = strip_chars connector_chars (join_surfaces phrase_parts')
      in window_loop rest (noun_count', phrase_parts', Some phrase'))"

text \<open>
  One iteration of the outer loop of \<open>flush_segment\<close>, at position \<open>i\<close>: \<open>toks\<close> is the
  segment from \<open>i\<close> on, zipped with its kinds. The test on \<open>noun_count\<close> and \<open>phrase\<close>
  stands after the inner loop in the source (it is indented as the \<open>for j\<close> statement
  is), so it runs once, on the values the last iteration left.
\<close>

definition flush_at :: "(pystr \<times> kind) list \<Rightarrow> pystr list" where
  "flush_at toks =
     (case toks of [] \<Rightarrow> []
      | (surface, k) # _ \<Rightarrow>
          (if k = Noun \<and> surface \<notin> set CONNECTORS then [surface] else []) @
          (case window_loop (take 6 toks) (0, [], None) of
             (noun_count, _, Some phrase) \<Rightarrow>
               (if noun_count \<ge> 2 \<and> phrase \<noteq> [] \<and> length phrase \<le> MAX_TERM_CHARS
                then [phrase] else [])
           | (_, _, None) \<Rightarrow> []))"

text \<open>\<open>flush_segment\<close>: the candidates appended for one segment, in order. The two lists
  of the source (\<open>segment\<close>, \<open>kinds\<close>) always have the same length and are kept zipped.\<close>

fun flush_segment :: "(pystr \<times> kind) list \<Rightarrow> pystr list" where
  "flush_segment [] = []"
| "flush_segment (t # rest) = flush_at (t # rest) @ flush_segment rest"

section \<open>Pass 1: tokens and candidates\<close>

text \<open>A token of the tokenizer: its surface and its part-of-speech string, a
  comma-separated list of tags. The tokenizer itself is an external library and enters
  as a function from a text chunk to its tokens.\<close>

record token =
  surface :: pystr
  part_of_speech :: pystr

text \<open>\<open>s.split(",")\<close>-style splitting at one separator character.\<close>

fun split_on :: "nat \<Rightarrow> pystr \<Rightarrow> pystr list" where
  "split_on sep [] = [[]]"
| "split_on sep (c # s) =
     (if c = sep then [] # split_on sep s
      else (case split_on sep s of [] \<Rightarrow> [[c]] | l # ls \<Rightarrow> (c # l) # ls))"

text \<open>\<open>[A-Za-z0-9]+\<close>\<close>

definition RE_ALNUM :: rx where
  "RE_ALNUM = rplus (RCls (\<lambda>c. (0x41 \<le> c \<and> c \<le> 0x5A) \<or> (0x61 \<le> c \<and> c \<le> 0x7A)
                               \<or> (0x30 \<le> c \<and> c \<le> 0x39)))"

definition is_termish_surface :: "pystr \<Rightarrow> bool" where
  "is_termish_surface s =
     (if s = [] then False
      else if s \<in> set CONNECTORS then True
      else if fullmatch RE_ALNUM s then True
      else False)"

text \<open>\<open>_is_noun_token\<close>: the major tag must be meishi (noun, U+540D U+8A5E) and the
  minor tag none of suu (number), hijiritsu (non-independent), daimeishi (pronoun),
  setsubi (suffix).\<close>

definition is_noun_token :: "token \<Rightarrow> bool" where
  "is_noun_token tok =
     (let pos = split_on 0x2C (part_of_speech tok);
          pos1 = (if length pos > 0 then pos ! 0 else []);
          pos2 = (if length pos > 1 then pos ! 1 else [])
      in if pos1 \<noteq> [0x540D, 0x8A5E] then False
         else if pos2 \<in> set [[0x6570], [0x975E, 0x81EA, 0x7ACB], [0x4EE3, 0x540D, 0x8A5E],
                              [0x63A5, 0x5C3E]] then False
         else True)"

text \<open>The kind given to a token in the loop of \<open>extract_candidates\<close>; \<open>None\<close> is a
  boundary.\<close>

definition token_kind :: "token \<Rightarrow> kind option" where
  "token_kind tok =
     (if is_noun_token tok then Some Noun
      else if is_termish_surface (surface tok)
           then (if fullmatch RE_ALNUM (surface tok) then Some Noun else Some Connector)
      else None)"

text \<open>The chunks \<open>text[offset : offset + n]\<close> for \<open>offset\<close> in \<open>range(0, len(text), n)\<close>.\<close>

definition chunks_of :: "nat \<Rightarrow> pystr \<Rightarrow> pystr list" where
  "chunks_of n text = map (\<lambda>k. take n (drop (k * n) text)) [0 ..< (length text + n - 1) div n]"

text \<open>The token loop of \<open>extract_candidates\<close>; \<open>seg\<close> is the current segment with its
  kinds. A boundary flushes the segment, and the end of the text flushes the last one.\<close>

fun extract_tokens :: "token list \<Rightarrow> (pystr \<times> kind) list \<Rightarrow> pystr list" where
  "extract_tokens [] seg = flush_segment seg"
| "extract_tokens (tok # toks) seg =
     (case token_kind tok of
        None \<Rightarrow> flush_segment seg @ extract_tokens toks []
      | Some k \<Rightarrow> extract_tokens toks (seg @ [(surface tok, k)]))"

definition extract_candidates :: "(pystr \<Rightarrow> token list) \<Rightarrow> pystr \<Rightarrow> pystr list" where
  "extract_candidates tokenize text =
     extract_tokens (concat (map tokenize (chunks_of 10000 text))) []"

section \<open>Pass 1: the Context Extractor (\<open>_extract_context\<close>)\<close>

text \<open>\<open>re.sub(r"\s+", " ", s)\<close>: every maximal run of white space becomes one space.\<close>

function collapse_ws :: "pystr \<Rightarrow> pystr" where
  "collapse_ws [] = []"
| "collapse_ws (c # s) =
     (if is_space c then 0x20 # collapse_ws (dropWhile is_space s) else c # collapse_ws s)"
  by pat_completeness auto
termination
  by (relation "measure length") (auto simp: le_imp_less_Suc length_dropWhile_le)

text \<open>
  \<open>_extract_context(text, term)\<close>. The ideographic full stop is U+3002 and the ellipsis
  appended to a cut snippet is U+2026. \<open>window.find(term)\<close> can fail after the white
  space was collapsed; Python's \<open>-1\<close> then makes the end of \<open>rfind\<close> the last index of
  the window and the start of \<open>find\<close> \<open>len(term) - 1\<close>. The index \<open>after\<close> is taken in
  the window before it is cut at \<open>before\<close>, and used in the window after that cut.
\<close>

definition extract_context :: "pystr \<Rightarrow> pystr \<Rightarrow> pystr option" where
  "extract_context text term =
     (case find text term of
        None \<Rightarrow> None
      | Some idx \<Rightarrow>
          let left = idx - 80;
              right = min (length text) (idx + length term + 140);
              window = strip (collapse_ws (take (right - left) (drop left text)))
          in if window = [] then None
             else
               let pos = find window term;
                   before = (case pos of Some p \<Rightarrow> rfind_upto window [0x3002] p
                             | None \<Rightarrow> rfind_upto window [0x3002] (length window - 1));
                   after = (case pos of Some p \<Rightarrow> find_at window [0x3002] (p + length term)
                            | None \<Rightarrow> find_at window [0x3002] (length term - 1));
                   window1 = (case before of Some b \<Rightarrow> drop (b + 1) window | None \<Rightarrow> window);
                   window2 = (case after of Some a \<Rightarrow> take (a + 1) window1 | None \<Rightarrow> window1);
                   window3 = strip window2
               in if length window3 < 6 then None
                  else if length window3 > 160 then Some (rstrip (take 160 window3) @ [0x2026])
                  else Some window3)"

section \<open>Decoded JSON records, errors and persisted artifacts\<close>

text \<open>
  A decoded JSON value is a string or something else; \<open>'v\<close> is the type of the values
  that are not strings (null, booleans, numbers, arrays, nested objects). The scripts
  only ask of such a value whether it is a string and whether it is truthy. A JSON
  object is a Python \<open>dict\<close>: keys in insertion order, each key once.
\<close>

datatype 'v jvalue = JStr pystr | JOther 'v

type_synonym 'v jdict = "(pystr \<times> 'v jvalue) list"

text \<open>One decoded line of \<open>wordList.jsonl\<close>: an object, or any other JSON value.\<close>

datatype 'v jline = JObject "'v jdict" | JNotObject "'v jvalue"

definition dict_get :: "'v jdict \<Rightarrow> pystr \<Rightarrow> 'v jvalue option" where
  "dict_get d k = map_of d k"

definition dict_pop :: "pystr \<Rightarrow> 'v jdict \<Rightarrow> 'v jdict" where
  "dict_pop k d = filter (\<lambda>kv. fst kv \<noteq> k) d"

definition key_word :: pystr where
  "key_word = [0x77, 0x6F, 0x72, 0x64]"

definition key_description :: pystr where
  "key_description = [0x64, 0x65, 0x73, 0x63, 0x72, 0x69, 0x70, 0x74, 0x69, 0x6F, 0x6E]"

definition key_metadata :: pystr where
  "key_metadata = [0x6D, 0x65, 0x74, 0x61, 0x64, 0x61, 0x74, 0x61]"

datatype error = SystemExit | FileNotFoundError | AttributeError | KeyError | IndexError
  | JSONDecodeError | UnicodeEncodeError

text \<open>The notes of pass 1 (no PDF in the folder; a PDF without extractable text, with its
  file name; the candidates cut to those seen twice, with the number of candidates) and
  the \<open>FixStats\<close> of pass 2.\<close>

datatype run_note = NoPdfNote | NoTextNote pystr | ManyCandidatesNote nat

record fix_stats =
  words_in :: nat
  words_out :: nat
  jsonl_in :: nat
  jsonl_out :: nat
  desc_dropped :: nat
  words_dropped :: int

text \<open>The work log, without its time stamps: the section pass 1 writes, the title pass 2
  writes when no log exists, and the section pass 2 appends.\<close>

datatype log_section = GenerateLog "run_note list" nat nat | LogTitle pystr | MicrofixLog fix_stats

text \<open>
  The \<open>json\<close> library: \<open>json.dumps(item, ensure_ascii=False)\<close> on a record, and
  \<open>json.loads\<close> on a line, \<open>None\<close> standing for \<open>JSONDecodeError\<close>. Both belong to the
  interpreter and enter as parameters.
\<close>

record 'v json_lib =
  json_dumps :: "'v jdict \<Rightarrow> pystr"
  json_loads :: "pystr \<Rightarrow> 'v jline option"

text \<open>\<open>_write_jsonl\<close> builds one line for each record and a final newline; \<open>_load_jsonl\<close>
  cuts the text with \<open>splitlines\<close>, strips each line, skips the blank ones and decodes the
  others in order, stopping at the first line that does not decode.\<close>

definition write_jsonl :: "'v json_lib \<Rightarrow> 'v jdict list \<Rightarrow> pystr" where
  "write_jsonl J items = join [0x0A] (map (json_dumps J) items) @ [0x0A]"

fun load_lines :: "'v json_lib \<Rightarrow> pystr list \<Rightarrow> 'v jline list \<Rightarrow> error + 'v jline list" where
  "load_lines J [] items = Inr items"
| "load_lines J (line # rest) items =
     (if strip line = [] then load_lines J rest items
      else (case json_loads J (strip line) of
              None \<Rightarrow> Inl JSONDecodeError
            | Some v \<Rightarrow> load_lines J rest (items @ [v])))"

definition load_jsonl :: "'v json_lib \<Rightarrow> pystr \<Rightarrow> error + 'v jline list" where
  "load_jsonl J text = load_lines J (splitlines text) []"

text \<open>
  \<open>path.write_text(s, encoding="utf-8")\<close>: the file is opened for writing, which empties
  it, and the text is encoded as a whole. A surrogate code point (U+D800 to U+DFFF, which
  \<open>json.loads\<close> can produce from an escape) cannot be encoded: \<open>UnicodeEncodeError\<close> is
  raised and the file stays empty. The result is the exception, if any, and the content
  of the file afterwards.
\<close>

definition utf8_encodable :: "pystr \<Rightarrow> bool" where
  "utf8_encodable s = list_all (\<lambda>c. c < 0xD800 \<or> 0xDFFF < c) s"

definition write_text :: "pystr \<Rightarrow> error option \<times> pystr" where
  "write_text s = (if utf8_encodable s then (None, s) else (Some UnicodeEncodeError, []))"

text \<open>The persisted artifacts of one Entity under \<open>output/<dirname>/\<close>; \<open>None\<close> is a file
  that does not exist. \<open>wordList.txt\<close> and \<open>wordList.jsonl\<close> are kept as their texts (the
  decoded content of the UTF-8 files).\<close>

record company_out =
  wordlist_txt :: "pystr option"
  wordlist_jsonl :: "pystr option"
  worklog :: "log_section list option"

definition empty_company_out :: company_out where
  "empty_company_out = \<lparr> wordlist_txt = None, wordlist_jsonl = None, worklog = None \<rparr>"

text \<open>The output root: \<open>None\<close> when the directory does not exist, else its
  sub-directories by name.\<close>

type_synonym out_root = "(pystr \<times> company_out) list option"

fun put_dir :: "pystr \<Rightarrow> 'a \<Rightarrow> (pystr \<times> 'a) list \<Rightarrow> (pystr \<times> 'a) list" where
  "put_dir k v [] = [(k, v)]"
| "put_dir k v ((k', v') # r) = (if k' = k then (k, v) # r else (k', v') # put_dir k v r)"

text \<open>\<open>_company_name_from_dirname\<close>: \<open>re.match(r"^\d+_(.+)$", dirname)\<close>. The digits must
  run up to an underscore; the group is the rest, which must be non-empty and free of
  newlines, except that \<open>$\<close> also matches before one final newline.\<close>

definition company_name_from_dirname :: "unicode_db \<Rightarrow> pystr \<Rightarrow> pystr" where
  "company_name_from_dirname U dirname =
     (let digits = takeWhile (re_digit U) dirname;
          rest = dropWhile (re_digit U) dirname
      in case rest of
           [] \<Rightarrow> dirname
         | c # body \<Rightarrow>
             (let g = takeWhile (\<lambda>x. x \<noteq> 0x0A) body;
                  tail = dropWhile (\<lambda>x. x \<noteq> 0x0A) body
              in if digits \<noteq> [] \<and> c = 0x5F \<and> g \<noteq> [] \<and> (tail = [] \<or> tail = [0x0A])
                 then g else dirname))"

section \<open>Pass 1: the Frequency Aggregator and \<open>process_company_dir\<close>\<close>

text \<open>A \<open>Counter\<close>: a \<open>dict\<close> from terms to counts, in insertion order.\<close>

type_synonym counter = "(pystr \<times> nat) list"

fun counter_incr :: "pystr \<Rightarrow> counter \<Rightarrow> counter" where
  "counter_incr t [] = [(t, 1)]"
| "counter_incr t ((k, c) # r) = (if k = t then (k, c + 1) # r else (k, c) # counter_incr t r)"

text \<open>The body of the loop over the raw candidates of one page: the state is
  \<open>(counter, first_context)\<close>.\<close>

definition candidate_step ::
  "unicode_db \<Rightarrow> pystr \<Rightarrow> pystr \<Rightarrow> counter \<times> (pystr \<rightharpoonup> pystr) \<Rightarrow> pystr
     \<Rightarrow> counter \<times> (pystr \<rightharpoonup> pystr)" where
  "candidate_step U company page_text st raw_term =
     (let term = normalize_candidate U raw_term
      in if looks_bad U term company then st
         else
           let counter' = counter_incr term (fst st)
           in if snd st term = None
              then (case extract_context page_text term of
                      None \<Rightarrow> (counter', snd st)
                    | Some ctx \<Rightarrow>
                        if ctx \<noteq> [] then (counter', (snd st)(term \<mapsto> ctx)) else (counter', snd st))
              else (counter', snd st))"

definition page_step ::
  "(pystr \<Rightarrow> token list) \<Rightarrow> unicode_db \<Rightarrow> pystr \<Rightarrow> counter \<times> (pystr \<rightharpoonup> pystr) \<Rightarrow> pystr
     \<Rightarrow> counter \<times> (pystr \<rightharpoonup> pystr)" where
  "page_step tokenize U company st page_text =
     (if page_text = [] then st
      else foldl (candidate_step U company page_text) st (extract_candidates tokenize page_text))"

text \<open>A PDF is given by its file name and the page texts that the conversion library
  extracts from it; \<open>extract_pdf_pages_text\<close> counts the pages that are not empty.\<close>

type_synonym pdf = "pystr \<times> pystr list"

record pdf_info =
  path :: pystr
  pages_total :: nat
  pages_with_text :: nat

definition extract_pdf_pages_text :: "pdf \<Rightarrow> pystr list \<times> pdf_info" where
  "extract_pdf_pages_text p =
     (snd p, \<lparr> path = fst p, pages_total = length (snd p),
               pages_with_text = length (filter (\<lambda>t. t \<noteq> []) (snd p)) \<rparr>)"

record scan_state =
  counter_of :: counter
  first_context_of :: "pystr \<rightharpoonup> pystr"
  pdf_infos_of :: "pdf_info list"
  notes_of :: "run_note list"

definition pdf_step ::
  "(pystr \<Rightarrow> token list) \<Rightarrow> unicode_db \<Rightarrow> pystr \<Rightarrow> scan_state \<Rightarrow> pdf \<Rightarrow> scan_state" where
  "pdf_step tokenize U company st p =
     (let (pages_text, info) = extract_pdf_pages_text p;
          st1 = st\<lparr> pdf_infos_of := pdf_infos_of st @ [info] \<rparr>
      in if pages_with_text info = 0
         then st1\<lparr> notes_of := notes_of st1 @ [NoTextNote (fst p)] \<rparr>
         else
           let (c, f) = foldl (page_step tokenize U company)
                          (counter_of st1, first_context_of st1) pages_text
           in st1\<lparr> counter_of := c, first_context_of := f \<rparr>)"

text \<open>\<open>Counter.most_common(n)\<close>: the \<open>n\<close> entries of highest count, entries of equal
  count in insertion order.\<close>

definition most_common :: "nat \<Rightarrow> counter \<Rightarrow> counter" where
  "most_common n counter = take n (sort_key (\<lambda>tc. - int (snd tc)) counter)"

text \<open>The cap of \<open>process_company_dir\<close>, for a cap \<open>cap\<close> (the source has
  \<open>MAX_TERMS_PER_COMPANY\<close>): the counter that is ranked afterwards, and whether the note
  is added. Indexing \<open>[-1]\<close> fails on an empty list, which needs \<open>cap = 0\<close>.\<close>

definition cap_counter :: "nat \<Rightarrow> counter \<Rightarrow> error + (counter \<times> run_note list)" where
  "cap_counter cap counter =
     (if length counter > cap
      then (case most_common cap counter of
              [] \<Rightarrow> Inl IndexError
            | e # es \<Rightarrow>
                let cutoff_count = snd (last (e # es))
                in if cutoff_count \<le> 1
                   then Inr (filter (\<lambda>tc. snd tc \<ge> 2) counter,
                             [ManyCandidatesNote (length counter)])
                   else Inr (counter, []))
      else Inr (counter, []))"

text \<open>\<open>sorted(counter.items(), key=lambda kv: (-kv[1], kv[0]))\<close> and
  \<open>[t for t, _ in terms_sorted[:cap]]\<close>.\<close>

definition terms_sorted :: "counter \<Rightarrow> counter" where
  "terms_sorted counter = sort_key (\<lambda>kv. (- int (snd kv), fst kv)) counter"

definition top_terms :: "nat \<Rightarrow> counter \<Rightarrow> pystr list" where
  "top_terms cap counter = map fst (take cap (terms_sorted counter))"

text \<open>The whole selection: cap, then rank, then cut.\<close>

definition select_terms :: "nat \<Rightarrow> counter \<Rightarrow> error + (pystr list \<times> counter \<times> run_note list)" where
  "select_terms cap counter =
     (case cap_counter cap counter of
        Inl e \<Rightarrow> Inl e
      | Inr (counter', ns) \<Rightarrow> Inr (top_terms cap counter', counter', ns))"

text \<open>One entry of the record list. The Metadata Tagger (\<open>_pos\<close>, \<open>_concept_type\<close>,
  \<open>_category\<close> and the two constant fields) builds the nested \<open>metadata\<close> object from
  the term and the company; it enters as the function \<open>metadata_of\<close>.\<close>

definition make_entry :: "(pystr \<Rightarrow> pystr \<Rightarrow> 'v) \<Rightarrow> pystr \<Rightarrow> (pystr \<rightharpoonup> pystr) \<Rightarrow> pystr \<Rightarrow> 'v jdict" where
  "make_entry metadata_of company first_context term =
     [(key_word, JStr term)] @
     (case first_context term of None \<Rightarrow> [] | Some ctx \<Rightarrow> [(key_description, JStr ctx)]) @
     [(key_metadata, JOther (metadata_of term company))]"

text \<open>The \<open>dict\<close> that \<open>process_company_dir\<close> returns; \<open>None\<close> is a key that the
  \<open>dict\<close> does not have.\<close>

record 'v result =
  res_company :: pystr
  res_company_dir :: "pystr option"
  res_pdfs :: "pystr list"
  res_terms :: "pystr list"
  res_entries :: "'v jdict list option"
  res_pdf_infos :: "pdf_info list"
  res_stats :: "(nat \<times> nat) option"
  res_notes :: "run_note list"

definition process_company_dir ::
  "(pystr \<Rightarrow> token list) \<Rightarrow> unicode_db \<Rightarrow> (pystr \<Rightarrow> pystr \<Rightarrow> 'v) \<Rightarrow> pystr \<times> pdf list
     \<Rightarrow> error + 'v result" where
  "process_company_dir tokenize U metadata_of dir =
     (let company = company_name_from_dirname U (fst dir);
          pdfs = sort_key fst (snd dir)
      in if pdfs = []
         then Inr \<lparr> res_company = company, res_company_dir = None, res_pdfs = [], res_terms = [],
                    res_entries = None, res_pdf_infos = [], res_stats = None,
                    res_notes = [NoPdfNote] \<rparr>
         else
           let st = foldl (pdf_step tokenize U company)
                      \<lparr> counter_of = [], first_context_of = Map.empty, pdf_infos_of = [],
                        notes_of = [] \<rparr> pdfs
           in case select_terms MAX_TERMS_PER_COMPANY (counter_of st) of
                Inl e \<Rightarrow> Inl e
              | Inr (selected, counter', ns) \<Rightarrow>
                  Inr \<lparr> res_company = company, res_company_dir = None, res_pdfs = map fst pdfs,
                        res_terms = selected,
                        res_entries = Some (map (make_entry metadata_of company (first_context_of st)) selected),
                        res_pdf_infos = pdf_infos_of st,
                        res_stats = Some (length counter', length selected),
                        res_notes = notes_of st @ ns \<rparr>)"

text \<open>\<open>write_outputs\<close>, on the artifacts of the new layout. \<open>wordList.txt\<close> is written
  first; \<open>result["entries"]\<close> is read next and raises \<open>KeyError\<close> when the key is
  missing, before \<open>wordList.jsonl\<close> and the work log are written. The copies of the legacy
  layout hold the same texts and are written after \<open>wordList.jsonl\<close>.\<close>

definition write_outputs :: "'v json_lib \<Rightarrow> 'v result \<Rightarrow> out_root \<Rightarrow> error option \<times> out_root" where
  "write_outputs J r root =
     (let company_dirname = (case res_company_dir r of Some d \<Rightarrow> d | None \<Rightarrow> res_company r);
          dirs = (case root of None \<Rightarrow> [] | Some ds \<Rightarrow> ds);
          old = (case map_of dirs company_dirname of None \<Rightarrow> empty_company_out | Some out \<Rightarrow> out)
      in case write_text (join [0x0A] (res_terms r) @ [0x0A]) of
           (Some e, t) \<Rightarrow> (Some e, Some (put_dir company_dirname (old\<lparr> wordlist_txt := Some t \<rparr>) dirs))
         | (None, t) \<Rightarrow>
             let out1 = old\<lparr> wordlist_txt := Some t \<rparr>
             in case res_entries r of
                  None \<Rightarrow> (Some KeyError, Some (put_dir company_dirname out1 dirs))
                | Some es \<Rightarrow>
                    (case write_text (write_jsonl J es) of
                       (Some e, j) \<Rightarrow>
                         (Some e, Some (put_dir company_dirname (out1\<lparr> wordlist_jsonl := Some j \<rparr>) dirs))
                     | (None, j) \<Rightarrow>
                         let out2 = out1\<lparr> wordlist_jsonl := Some j,
                                          worklog := Some [GenerateLog (res_notes r)
                                            (case res_stats r of None \<Rightarrow> 0 | Some s \<Rightarrow> fst s)
                                            (case res_stats r of None \<Rightarrow> 0 | Some s \<Rightarrow> snd s)] \<rparr>
                         in (None, Some (put_dir company_dirname out2 dirs))))"

text \<open>\<open>main\<close> of \<open>run_extract_terms.py\<close>. \<open>resources\<close> is \<open>None\<close> when the directory
  does not exist, else its sub-directories with their PDFs. No exception is caught: the
  first error ends the loop.\<close>

fun extract_loop ::
  "(pystr \<Rightarrow> token list) \<Rightarrow> unicode_db \<Rightarrow> (pystr \<Rightarrow> pystr \<Rightarrow> 'v) \<Rightarrow> 'v json_lib
     \<Rightarrow> (pystr \<times> pdf list) list \<Rightarrow> out_root \<Rightarrow> error option \<times> out_root" where
  "extract_loop tokenize U metadata_of J [] root = (None, root)"
| "extract_loop tokenize U metadata_of J (d # ds) root =
     (case process_company_dir tokenize U metadata_of d of
        Inl e \<Rightarrow> (Some e, root)
      | Inr r \<Rightarrow>
          (case write_outputs J (r\<lparr> res_company_dir := Some (fst d) \<rparr>) root of
             (Some e, root') \<Rightarrow> (Some e, root')
           | (None, root') \<Rightarrow> extract_loop tokenize U metadata_of J ds root'))"

definition main_extract ::
  "(pystr \<Rightarrow> token list) \<Rightarrow> unicode_db \<Rightarrow> (pystr \<Rightarrow> pystr \<Rightarrow> 'v) \<Rightarrow> 'v json_lib
     \<Rightarrow> (pystr \<times> pdf list) list option \<Rightarrow> out_root \<Rightarrow> error option \<times> out_root" where
  "main_extract tokenize U metadata_of J resources root =
     (case resources of
        None \<Rightarrow> (Some SystemExit, root)
      | Some dirs \<Rightarrow>
          let company_dirs = sort_key fst dirs
          in if company_dirs = [] then (Some SystemExit, root)
             else extract_loop tokenize U metadata_of J company_dirs root)"

section \<open>Pass 2: the Refinement Filter (\<open>run_microfix_outputs.py\<close>)\<close>

text \<open>\<open>GENERIC_STOPWORDS\<close> (kaisha, kikan, jikou, kanou, joukyou, houhou, tougai, jouki,
  kisai, teishutsu, shorui, nendo, gatsu, nichi, jiten, genzai, touki, tousha) and
  \<open>FORM_TERMS\<close> (EDINET, EDINET-teishutsu-shorui, teishutsu-shorui,
  yuukashouken-houkokusho, yuukashouken-houkoku, shouken-houkoku).\<close>

definition GENERIC_STOPWORDS :: "pystr list" where
  "GENERIC_STOPWORDS =
    [[0x4F1A, 0x793E], [0x671F, 0x9593], [0x4E8B, 0x9805], [0x53EF, 0x80FD], [0x72B6, 0x6CC1],
     [0x65B9, 0x6CD5], [0x5F53, 0x8A72], [0x4E0A, 0x8A18], [0x8A18, 0x8F09], [0x63D0, 0x51FA],
     [0x66F8, 0x985E], [0x5E74, 0x5EA6], [0x6708], [0x65E5], [0x6642, 0x70B9], [0x73FE, 0x5728],
     [0x5F53, 0x671F], [0x5F53, 0x793E]]"

definition FORM_TERMS :: "pystr list" where
  "FORM_TERMS =
    [[0x45, 0x44, 0x49, 0x4E, 0x45, 0x54],
     [0x45, 0x44, 0x49, 0x4E, 0x45, 0x54, 0x63D0, 0x51FA, 0x66F8, 0x985E],
     [0x63D0, 0x51FA, 0x66F8, 0x985E],
     [0x6709, 0x4FA1, 0x8A3C, 0x5238, 0x5831, 0x544A, 0x66F8],
     [0x6709, 0x4FA1, 0x8A3C, 0x5238, 0x5831, 0x544A],
     [0x8A3C, 0x5238, 0x5831, 0x544A]]"

text \<open>\<open>E\d{5}\<close>\<close>

definition RE_EDINET_CODE :: "unicode_db \<Rightarrow> rx" where
  "RE_EDINET_CODE U = RSeq (rchar 0x45) (rrep 5 (rd U))"

text \<open>The lenticular brackets U+3010 and U+3011.\<close>

definition RE_HAS_BRACKETS :: rx where
  "RE_HAS_BRACKETS = roneof [0x3010, 0x3011]"

text \<open>\<open>RE_ONLY_NUM_PUNCT\<close> of pass 2: digits, comma, full stop, hyphen-minus, en dash, em
  dash, solidus.\<close>

definition RE_ONLY_NUM_PUNCT_2 :: "unicode_db \<Rightarrow> rx" where
  "RE_ONLY_NUM_PUNCT_2 U =
     rplus (RCls (\<lambda>c. re_digit U c \<or> c \<in> set [0x2C, 0x2E, 0x2D, 0x2013, 0x2014, 0x2F]))"

text \<open>\<open>^(?:\(\d+\)|\d+\))$\<close>\<close>

definition RE_FOOTNOTE :: "unicode_db \<Rightarrow> rx" where
  "RE_FOOTNOTE U =
     RAlt (RSeq (rchar 0x28) (RSeq (rplus (rd U)) (rchar 0x29)))
          (RSeq (rplus (rd U)) (rchar 0x29))"

text \<open>The date fragments: \<open>\d{4}Y\<close>, \<open>\d{1,2}M\d{0,2}D?\<close>, \<open>\d{4}/\d{1,2}/\d{1,2}\<close>,
  \<open>\d{4}-\d{1,2}-\d{1,2}\<close>.\<close>

definition RE_DATE_FRAGMENT :: "unicode_db \<Rightarrow> rx" where
  "RE_DATE_FRAGMENT U =
     RAlt (RSeq (rrep 4 (rd U)) (rchar 0x5E74))
      (RAlt (RSeq (rbetween 1 2 (rd U)) (RSeq (rchar 0x6708) (RSeq (rbetween 0 2 (rd U))
               (ropt (rchar 0x65E5)))))
        (RAlt (RSeq (rrep 4 (rd U)) (RSeq (rchar 0x2F) (RSeq (rbetween 1 2 (rd U))
                 (RSeq (rchar 0x2F) (rbetween 1 2 (rd U))))))
              (RSeq (rrep 4 (rd U)) (RSeq (rchar 0x2D) (RSeq (rbetween 1 2 (rd U))
                 (RSeq (rchar 0x2D) (rbetween 1 2 (rd U))))))))"

text \<open>\<open>^M\d+D?$\<close> and \<open>^\d+M$\<close>, with \<open>M\<close> gatsu and \<open>D\<close> nichi.\<close>

definition RE_MONTH_LEADING :: "unicode_db \<Rightarrow> rx" where
  "RE_MONTH_LEADING U = RSeq (rchar 0x6708) (RSeq (rplus (rd U)) (ropt (rchar 0x65E5)))"

definition RE_MONTH_TRAILING :: "unicode_db \<Rightarrow> rx" where
  "RE_MONTH_TRAILING U = RSeq (rplus (rd U)) (rchar 0x6708)"

text \<open>\<open>^\d+\s*/\s*\d+$\<close>\<close>

definition RE_PAGE_FRACTION :: "unicode_db \<Rightarrow> rx" where
  "RE_PAGE_FRACTION U =
     RSeq (rplus (rd U)) (RSeq (RStar (RCls is_space)) (RSeq (rchar 0x2F)
       (RSeq (RStar (RCls is_space)) (rplus (rd U)))))"

text \<open>\<open>RE_SECTION\<close> is the pattern of \<open>RE_SECTION_LIKE\<close> of pass 1.\<close>

definition RE_SECTION :: "unicode_db \<Rightarrow> rx" where
  "RE_SECTION U = RE_SECTION_LIKE U"

text \<open>The unit fragments: tan'i, hyakuman-en, sen-en, en, kabu, fullwidth percent, percent,
  kai, nin, ken, dai, sha, nichi, gatsu, nen.\<close>

definition RE_UNIT_FRAGMENT :: rx where
  "RE_UNIT_FRAGMENT =
     foldr RAlt (map rstr [[0x5358, 0x4F4D], [0x767E, 0x4E07, 0x5186], [0x5343, 0x5186], [0x5186],
        [0x682A], [0xFF05], [0x25], [0x56DE], [0x4EBA], [0x4EF6], [0x53F0], [0x793E], [0x65E5],
        [0x6708], [0x5E74]]) RNone"

text \<open>The parentheses: \<open>(\<close>, \<open>)\<close> and their fullwidth forms U+FF08, U+FF09.\<close>

definition RE_PARENS :: rx where
  "RE_PARENS = roneof [0x28, 0x29, 0xFF08, 0xFF09]"

text \<open>\<open>_is_noisy_word(word, company)\<close>, the tests in the order of the source.\<close>

definition is_noisy_word :: "unicode_db \<Rightarrow> pystr \<Rightarrow> pystr \<Rightarrow> bool" where
  "is_noisy_word U word company =
     (let w = strip word in
      if w = [] then True
      else if w \<in> set FORM_TERMS then True
      else if w \<in> set GENERIC_STOPWORDS then True
      else if search (RE_EDINET_CODE U) w then True
      else if search RE_HAS_BRACKETS w then True
      else if fullmatch (RE_ONLY_NUM_PUNCT_2 U) w then True
      else if fullmatch (RE_FOOTNOTE U) w then True
      else if fullmatch (RE_PAGE_FRACTION U) w then True
      else if fullmatch (RE_SECTION U) w then True
      else if search (RE_DATE_FRAGMENT U) w then True
      else if fullmatch (RE_MONTH_LEADING U) w \<or> fullmatch (RE_MONTH_TRAILING U) w then True
      else if (0x28 \<in> set w \<or> 0x29 \<in> set w \<or> 0xFF08 \<in> set w \<or> 0xFF09 \<in> set w)
              \<and> (count_char 0x28 w \<noteq> count_char 0x29 w
                   \<or> count_char 0xFF08 w \<noteq> count_char 0xFF09 w) then True
      else if search RE_PARENS w \<and> search RE_UNIT_FRAGMENT w then True
      else if (endswith w [0x29] \<or> endswith w [0xFF09]) \<and> search RE_UNIT_FRAGMENT w then True
      else if endswith w [0x3A] \<and> contains [0x5358, 0x4F4D] w then True
      else if w = company then True
      else False)"

text \<open>\<open>\b0\d{1,4}-\d{1,4}-\d{3,4}\b\<close>: \<open>\b\<close> holds at a position where exactly one of the
  characters before and after it is a word character, the ends of the string counting as
  non-word characters.\<close>

definition word_boundary :: "unicode_db \<Rightarrow> pystr \<Rightarrow> nat \<Rightarrow> bool" where
  "word_boundary U s k =
     ((0 < k \<and> k \<le> length s \<and> re_word U (s ! (k - 1))) \<noteq> (k < length s \<and> re_word U (s ! k)))"

definition RE_PHONE_body :: "unicode_db \<Rightarrow> rx" where
  "RE_PHONE_body U =
     RSeq (rchar 0x30) (RSeq (rbetween 1 4 (rd U)) (RSeq (rchar 0x2D)
       (RSeq (rbetween 1 4 (rd U)) (RSeq (rchar 0x2D) (rbetween 3 4 (rd U))))))"

definition search_RE_PHONE :: "unicode_db \<Rightarrow> pystr \<Rightarrow> bool" where
  "search_RE_PHONE U s =
     list_ex (\<lambda>i. list_ex (\<lambda>j. word_boundary U s i \<and> word_boundary U s j
                               \<and> fullmatch (RE_PHONE_body U) (take (j - i) (drop i s)))
                    [i ..< Suc (length s)])
             [0 ..< Suc (length s)]"

text \<open>The address pattern: (Tokyo-to | Hokkaido | (Kyoto | Osaka)-fu | two or three
  characters and ken), anything, one of shi, ku, machi, mura, anything, and one of
  choume, ban, gou or \<open>\d{1,4}-\d{1,4}\<close>; \<open>.\<close> matches no newline.\<close>

definition RE_ADDRESS_LIKE :: "unicode_db \<Rightarrow> rx" where
  "RE_ADDRESS_LIKE U =
     RSeq (RAlt (rstr [0x6771, 0x4EAC, 0x90FD])
            (RAlt (rstr [0x5317, 0x6D77, 0x9053])
              (RAlt (RSeq (RAlt (rstr [0x4EAC, 0x90FD]) (rstr [0x5927, 0x962A])) (rchar 0x5E9C))
                    (RSeq (rbetween 2 3 rdot) (rchar 0x770C)))))
      (RSeq (RStar rdot)
        (RSeq (roneof [0x5E02, 0x533A, 0x753A, 0x6751])
          (RSeq (RStar rdot)
            (RAlt (rstr [0x4E01, 0x76EE])
              (RAlt (rchar 0x756A)
                (RAlt (rchar 0x53F7)
                  (RSeq (rbetween 1 4 (rd U)) (RSeq (rchar 0x2D) (rbetween 1 4 (rd U))))))))))"

text \<open>
  \<open>_is_noisy_description(desc)\<close>. The literals are, in order: EDINET-teishutsu-shorui,
  the bracketed hyoushi (cover page), an opening bracket with teishutsu; zaimukyokuchou,
  denwa-bangou; the bracketed kaishamei and eiyakumei, an opening bracket with daihyousha.
  The digit density \<open>digits / max(1, len(d)) > 0.35\<close> is a comparison of floats; it is
  only used for \<open>len(d) < 120\<close>, where it agrees with the exact comparison
  \<open>20 * digits > 7 * len(d)\<close>.
\<close>

definition is_noisy_description :: "unicode_db \<Rightarrow> pystr \<Rightarrow> bool" where
  "is_noisy_description U desc =
     (let d = strip desc in
      if d = [] then True
      else if contains [0x45, 0x44, 0x49, 0x4E, 0x45, 0x54, 0x63D0, 0x51FA, 0x66F8, 0x985E] d
              \<or> contains [0x3010, 0x8868, 0x7D19, 0x3011] d
              \<or> contains [0x3010, 0x63D0, 0x51FA] d then True
      else if contains [0x8CA1, 0x52D9, 0x5C40, 0x9577] d
              \<or> contains [0x96FB, 0x8A71, 0x756A, 0x53F7] d then True
      else if search_RE_PHONE U d then True
      else if contains [0x3010, 0x4F1A, 0x793E, 0x540D, 0x3011] d
              \<or> contains [0x3010, 0x82F1, 0x8A33, 0x540D, 0x3011] d
              \<or> contains [0x3010, 0x4EE3, 0x8868, 0x8005] d then True
      else if search (RE_ADDRESS_LIKE U) d then True
      else
        let digits = length (filter (str_isdigit U) d)
        in if 20 * digits > 7 * max 1 (length d) \<and> length d < 120 then True
           else if length d < 10 then True
           else False)"

text \<open>\<open>_load_words\<close> and the text \<open>_write_words\<close> writes.\<close>

definition load_words :: "pystr \<Rightarrow> pystr list" where
  "load_words text = map strip (filter (\<lambda>line. strip line \<noteq> []) (splitlines text))"

definition write_words :: "pystr list \<Rightarrow> pystr" where
  "write_words ws = join [0x0A] ws @ [0x0A]"

text \<open>The first loop of \<open>microfix_company\<close>, with its state \<open>(seen, keep_words)\<close>.\<close>

fun keep_loop :: "unicode_db \<Rightarrow> pystr \<Rightarrow> pystr list \<Rightarrow> pystr set \<times> pystr list
    \<Rightarrow> pystr set \<times> pystr list" where
  "keep_loop U company [] st = st"
| "keep_loop U company (w # ws) (seen, keep_words) =
     (if is_noisy_word U w company then keep_loop U company ws (seen, keep_words)
      else if w \<in> seen then keep_loop U company ws (seen, keep_words)
      else keep_loop U company ws (insert w seen, keep_words @ [w]))"

text \<open>\<open>(item.get("word") or "").strip()\<close>: a missing key, \<open>null\<close> and every other falsy
  value give the empty string; a truthy value that is not a string has no \<open>strip\<close>.
  \<open>truthy\<close> is Python's truth value of a decoded value that is not a string.\<close>

definition item_word :: "('v \<Rightarrow> bool) \<Rightarrow> 'v jdict \<Rightarrow> error + pystr" where
  "item_word truthy item =
     (case dict_get item key_word of
        None \<Rightarrow> Inr []
      | Some (JStr s) \<Rightarrow> Inr (strip s)
      | Some (JOther v) \<Rightarrow> if truthy v then Inl AttributeError else Inr [])"

text \<open>The test on the description of a record that is kept: when the description is a
  string and noisy, the record is copied, the copy loses the key \<open>"description"\<close>, and
  \<open>desc_dropped\<close> grows by one. The result is the record to append and that increment.\<close>

definition drop_noisy_description :: "unicode_db \<Rightarrow> 'v jdict \<Rightarrow> 'v jdict \<times> nat" where
  "drop_noisy_description U item =
     (case dict_get item key_description of
        Some (JStr desc) \<Rightarrow>
          if is_noisy_description U desc then (dict_pop key_description item, 1) else (item, 0)
      | _ \<Rightarrow> (item, 0))"

text \<open>
  The second loop, over \<open>items_in\<close>, with its state \<open>(items_out, desc_dropped)\<close>. A line
  that is not an object has no \<open>get\<close>. A record that passes the test on \<open>word\<close> has a
  non-empty string under \<open>"word"\<close>; \<open>items_out\<close> keeps that string, the later
  \<open>item["word"]\<close>, beside the record.
\<close>

fun items_loop :: "('v \<Rightarrow> bool) \<Rightarrow> unicode_db \<Rightarrow> pystr set \<Rightarrow> 'v jline list
    \<Rightarrow> (pystr \<times> 'v jdict) list \<times> nat \<Rightarrow> error + (pystr \<times> 'v jdict) list \<times> nat" where
  "items_loop truthy U keep_set [] st = Inr st"
| "items_loop truthy U keep_set (JNotObject v # rest) st = Inl AttributeError"
| "items_loop truthy U keep_set (JObject item # rest) (items_out, dropped) =
     (case item_word truthy item of
        Inl e \<Rightarrow> Inl e
      | Inr word \<Rightarrow>
          if word = [] \<or> word \<notin> keep_set
          then items_loop truthy U keep_set rest (items_out, dropped)
          else
            (case dict_get item key_word of
               Some (JStr raw) \<Rightarrow>
                 items_loop truthy U keep_set rest
                   (items_out @ [(raw, fst (drop_noisy_description U item))],
                    dropped + snd (drop_noisy_description U item))
             | _ \<Rightarrow> Inl KeyError))"

text \<open>The third loop: \<open>by_word\<close> takes the first record of each word.\<close>

fun by_word_loop :: "(pystr \<times> 'a) list \<Rightarrow> (pystr \<rightharpoonup> 'a) \<Rightarrow> (pystr \<rightharpoonup> 'a)" where
  "by_word_loop [] by_word = by_word"
| "by_word_loop ((w, item) # rest) by_word =
     by_word_loop rest (if by_word w = None then by_word(w \<mapsto> item) else by_word)"

text \<open>\<open>[by_word[w] for w in keep_words if w in by_word]\<close>\<close>

definition order_items :: "(pystr \<rightharpoonup> 'a) \<Rightarrow> pystr list \<Rightarrow> 'a list" where
  "order_items by_word keep_words =
     concat (map (\<lambda>w. case by_word w of None \<Rightarrow> [] | Some item \<Rightarrow> [item]) keep_words)"

text \<open>
  The computation of \<open>microfix_company\<close> between its reads and its writes (the three
  loops): from the loaded words and records to \<open>keep_words\<close>, \<open>items_out_ordered\<close> and
  \<open>desc_dropped\<close>, or the exception of the second loop.
\<close>

definition microfix_items ::
  "('v \<Rightarrow> bool) \<Rightarrow> unicode_db \<Rightarrow> pystr \<Rightarrow> pystr list \<Rightarrow> 'v jline list
     \<Rightarrow> error + pystr list \<times> 'v jdict list \<times> nat" where
  "microfix_items truthy U company ws_in items_in =
     (let keep_words = snd (keep_loop U company ws_in ({}, []));
          keep_set = set keep_words
      in case items_loop truthy U keep_set items_in ([], 0) of
           Inl e \<Rightarrow> Inl e
         | Inr (items_out, dropped) \<Rightarrow>
             let by_word = by_word_loop items_out Map.empty
             in Inr (keep_words, order_items by_word keep_words, dropped))"

text \<open>
  \<open>microfix_company\<close> on the directory \<open>dirname\<close> with the artifacts \<open>out\<close>: the
  \<open>FixStats\<close> or the exception, and the artifacts afterwards. Both files are read (the
  record list after the first loop in the source, which changes nothing since that loop
  has no effect outside its variables); \<open>wordList.txt\<close> is rewritten first, then
  \<open>wordList.jsonl\<close>, then the work log is extended. An exception while reading or in
  the loops leaves the artifacts as they were; an exception while writing leaves what
  was written before it and empties the file it occurs on.
\<close>

definition microfix_company ::
  "'v json_lib \<Rightarrow> ('v \<Rightarrow> bool) \<Rightarrow> unicode_db \<Rightarrow> pystr \<Rightarrow> company_out
     \<Rightarrow> (error + fix_stats) \<times> company_out" where
  "microfix_company J truthy U dirname out =
     (let company = company_name_from_dirname U dirname in
      case wordlist_txt out of
        None \<Rightarrow> (Inl FileNotFoundError, out)
      | Some wtxt \<Rightarrow>
          (case wordlist_jsonl out of
             None \<Rightarrow> (Inl FileNotFoundError, out)
           | Some jtxt \<Rightarrow>
               (case load_jsonl J jtxt of
                  Inl e \<Rightarrow> (Inl e, out)
                | Inr items_in \<Rightarrow>
                    (case microfix_items truthy U company (load_words wtxt) items_in of
                       Inl e \<Rightarrow> (Inl e, out)
                     | Inr (keep_words, items_out_ordered, dropped) \<Rightarrow>
                         (case write_text (write_words keep_words) of
                            (Some e, t) \<Rightarrow> (Inl e, out\<lparr> wordlist_txt := Some t \<rparr>)
                          | (None, t) \<Rightarrow>
                              (case write_text (write_jsonl J items_out_ordered) of
                                 (Some e, j) \<Rightarrow>
                                   (Inl e, out\<lparr> wordlist_txt := Some t, wordlist_jsonl := Some j \<rparr>)
                               | (None, j) \<Rightarrow>
                                   let st = \<lparr> words_in = length (load_words wtxt),
                                              words_out = length keep_words,
                                              jsonl_in = length items_in,
                                              jsonl_out = length items_out_ordered,
                                              desc_dropped = dropped,
                                              words_dropped = int (length (load_words wtxt))
                                                                - int (length keep_words) \<rparr>
                                   in (Inr st,
                                       \<lparr> wordlist_txt = Some t, wordlist_jsonl = Some j,
                                         worklog = Some ((case worklog out of
                                                            Some l \<Rightarrow> l
                                                          | None \<Rightarrow> [LogTitle company])
                                                         @ [MicrofixLog st]) \<rparr>)))))))"

text \<open>\<open>main\<close> of \<open>run_microfix_outputs.py\<close>: no exception of \<open>microfix_company\<close> is
  caught, so the first one ends the loop; the directories treated before it stay
  rewritten. The result is the exception if any, the output root and the statistics of
  the directories treated.\<close>

fun microfix_loop :: "'v json_lib \<Rightarrow> ('v \<Rightarrow> bool) \<Rightarrow> unicode_db \<Rightarrow> (pystr \<times> company_out) list
    \<Rightarrow> (pystr \<times> company_out) list \<Rightarrow> fix_stats list
    \<Rightarrow> error option \<times> (pystr \<times> company_out) list \<times> fix_stats list" where
  "microfix_loop J truthy U [] dirs done = (None, dirs, done)"
| "microfix_loop J truthy U (d # ds) dirs done =
     (case microfix_company J truthy U (fst d) (snd d) of
        (Inl e, out') \<Rightarrow> (Some e, put_dir (fst d) out' dirs, done)
      | (Inr st, out') \<Rightarrow> microfix_loop J truthy U ds (put_dir (fst d) out' dirs) (done @ [st]))"

definition main_microfix :: "'v json_lib \<Rightarrow> ('v \<Rightarrow> bool) \<Rightarrow> unicode_db \<Rightarrow> out_root
    \<Rightarrow> error option \<times> out_root \<times> fix_stats list" where
  "main_microfix J truthy U root =
     (case root of
        None \<Rightarrow> (Some SystemExit, root, [])
      | Some dirs \<Rightarrow>
          let company_dirs = sort_key fst dirs
          in if company_dirs = [] then (Some SystemExit, root, [])
             else (case microfix_loop J truthy U company_dirs dirs [] of
                     (e, dirs', done) \<Rightarrow> (e, Some dirs', done)))"

text \<open>The \<open>word\<close> field of a decoded line of the record list.\<close>

definition line_word :: "'v jline \<Rightarrow> 'v jvalue option" where
  "line_word l = (case l of JObject r \<Rightarrow> dict_get r key_word | JNotObject v \<Rightarrow> None)"

section \<open>Example inputs\<close>

text \<open>
  Concrete inputs on which the functions are run below. The non-string JSON values of the
  examples are the booleans, with Python's truth value \<open>id\<close>. The Entity directory is
  \<open>1_Xy\<close>. The records: \<open>ab\<close> with the description \<open>short\<close>, \<open>ab\<close> with no
  description, \<open>ab\<close> with the description \<open>ab is a fine term\<close>, \<open>cd\<close> with the
  description \<open>cd is a fine term\<close>, \<open>12\<close> with a metadata value, and \<open>ab\<close> with a
  description that holds the line separator U+2028.
\<close>

definition example_dirname :: pystr where
  "example_dirname = [0x31, 0x5F, 0x58, 0x79]"

definition rec_ab_short :: "bool jdict" where
  "rec_ab_short = [(key_word, JStr [0x61, 0x62]),
                   (key_description, JStr [0x73, 0x68, 0x6F, 0x72, 0x74])]"

definition rec_ab_bare :: "bool jdict" where
  "rec_ab_bare = [(key_word, JStr [0x61, 0x62])]"

definition rec_ab_fine :: "bool jdict" where
  "rec_ab_fine = [(key_word, JStr [0x61, 0x62]),
                  (key_description, JStr [0x61, 0x62, 0x20, 0x69, 0x73, 0x20, 0x61, 0x20, 0x66,
                                          0x69, 0x6E, 0x65, 0x20, 0x74, 0x65, 0x72, 0x6D])]"

definition rec_cd_fine :: "bool jdict" where
  "rec_cd_fine = [(key_word, JStr [0x63, 0x64]),
                  (key_description, JStr [0x63, 0x64, 0x20, 0x69, 0x73, 0x20, 0x61, 0x20, 0x66,
                                          0x69, 0x6E, 0x65, 0x20, 0x74, 0x65, 0x72, 0x6D])]"

definition rec_12 :: "bool jdict" where
  "rec_12 = [(key_word, JStr [0x31, 0x32]), (key_metadata, JOther True)]"

definition rec_ab_separator :: "bool jdict" where
  "rec_ab_separator =
     [(key_word, JStr [0x61, 0x62]),
      (key_description, JStr [0x6C, 0x69, 0x6E, 0x65, 0x20, 0x6F, 0x6E, 0x65, 0x2028,
                              0x6C, 0x69, 0x6E, 0x65, 0x20, 0x74, 0x77, 0x6F])]"

text \<open>
  The \<open>json\<close> library on these records. \<open>example_dumps\<close> writes an object of strings and
  booleans whose strings need no escape as \<open>json.dumps\<close> with \<open>ensure_ascii=False\<close>
  does: \<open>{"key": "value", "key": true}\<close>, every character of a string as it is.
  \<open>example_loads\<close> decodes the lines that \<open>example_dumps\<close> writes for the six records,
  and the line that holds the last record with its separator escaped as
  a backslash, \<open>u\<close> and \<open>2028\<close>; on the other texts met below, which are cut lines, \<open>json.loads\<close> fails.
\<close>

definition example_dumps_value :: "bool jvalue \<Rightarrow> pystr" where
  "example_dumps_value v =
     (case v of
        JStr s \<Rightarrow> [0x22] @ s @ [0x22]
      | JOther b \<Rightarrow> (if b then [0x74, 0x72, 0x75, 0x65] else [0x66, 0x61, 0x6C, 0x73, 0x65]))"

definition example_dumps :: "bool jdict \<Rightarrow> pystr" where
  "example_dumps d =
     [0x7B] @ join [0x2C, 0x20]
                (map (\<lambda>kv. [0x22] @ fst kv @ [0x22] @ [0x3A, 0x20] @ example_dumps_value (snd kv)) d)
     @ [0x7D]"

definition example_escaped_line :: pystr where
  "example_escaped_line =
     [0x7B, 0x22, 0x77, 0x6F, 0x72, 0x64, 0x22, 0x3A, 0x20, 0x22, 0x61, 0x62, 0x22, 0x2C, 0x20,
      0x22, 0x64, 0x65, 0x73, 0x63, 0x72, 0x69, 0x70, 0x74, 0x69, 0x6F, 0x6E, 0x22, 0x3A, 0x20,
      0x22, 0x6C, 0x69, 0x6E, 0x65, 0x20, 0x6F, 0x6E, 0x65, 0x5C, 0x75, 0x32, 0x30, 0x32, 0x38,
      0x6C, 0x69, 0x6E, 0x65, 0x20, 0x74, 0x77, 0x6F, 0x22, 0x7D]"

definition example_loads :: "pystr \<Rightarrow> bool jline option" where
  "example_loads =
     map_of ((example_escaped_line, JObject rec_ab_separator) #
             map (\<lambda>r. (example_dumps r, JObject r))
               [rec_ab_short, rec_ab_bare, rec_ab_fine, rec_cd_fine, rec_12, rec_ab_separator])"

definition example_json :: "bool json_lib" where
  "example_json = \<lparr> json_dumps = example_dumps, json_loads = example_loads \<rparr>"

text \<open>\<open>example_out\<close> holds the word list \<open>ab, cd, ab, 12\<close> and the records \<open>ab\<close>
  (\<open>short\<close>), \<open>cd\<close>, \<open>12\<close>; \<open>example_fixed\<close> is what pass 2 leaves of it.\<close>

definition example_out :: company_out where
  "example_out =
     \<lparr> wordlist_txt = Some [0x61, 0x62, 0xA, 0x63, 0x64, 0xA, 0x61, 0x62, 0xA, 0x31, 0x32, 0xA],
       wordlist_jsonl = Some (write_jsonl example_json [rec_ab_short, rec_cd_fine, rec_12]),
       worklog = None \<rparr>"

definition example_stats :: fix_stats where
  "example_stats = \<lparr> words_in = 4, words_out = 2, jsonl_in = 3, jsonl_out = 2,
                      desc_dropped = 1, words_dropped = 2 \<rparr>"

definition example_fixed :: company_out where
  "example_fixed =
     \<lparr> wordlist_txt = Some [0x61, 0x62, 0xA, 0x63, 0x64, 0xA],
       wordlist_jsonl = Some (write_jsonl example_json [rec_ab_bare, rec_cd_fine]),
       worklog = Some [LogTitle [0x58, 0x79], MicrofixLog example_stats] \<rparr>"

text \<open>Artifacts that break the invariant before pass 2: the word \<open>ab\<close> and no record.\<close>

definition example_unmatched :: company_out where
  "example_unmatched =
     \<lparr> wordlist_txt = Some [0x61, 0x62, 0xA], wordlist_jsonl = Some [0xA], worklog = None \<rparr>"


text \<open>The word \<open>ab\<close> with the record whose description holds U+2028, written with the
  escape, and what pass 2 leaves of it: the same record with the separator itself.\<close>

definition example_escaped :: company_out where
  "example_escaped =
     \<lparr> wordlist_txt = Some [0x61, 0x62, 0xA],
       wordlist_jsonl = Some (example_escaped_line @ [0xA]),
       worklog = None \<rparr>"

definition example_unescaped :: company_out where
  "example_unescaped =
     \<lparr> wordlist_txt = Some [0x61, 0x62, 0xA],
       wordlist_jsonl = Some (write_jsonl example_json [rec_ab_separator]),
       worklog = Some [LogTitle [0x58, 0x79],
                       MicrofixLog \<lparr> words_in = 1, words_out = 1, jsonl_in = 1, jsonl_out = 1,
                                      desc_dropped = 0, words_dropped = 0 \<rparr>] \<rparr>"

text \<open>
  A tokenizer for the examples: every word between spaces is a token tagged as a general
  noun (meishi, ippan). The metadata of the examples is the value \<open>True\<close>. The folder
  \<open>1_Xy\<close> of \<open>example_resources\<close> holds one PDF, \<open>a.pdf\<close>, of two pages: \<open>ab\<close>
  and \<open>ab cdefgh\<close>; the folder of \<open>example_scanned\<close> holds a PDF without text,
  \<open>a.pdf\<close>, and the PDF \<open>b.pdf\<close> with the page \<open>ab cdefgh\<close>.
\<close>

definition example_tokenize :: "pystr \<Rightarrow> token list" where
  "example_tokenize text =
     map (\<lambda>s. \<lparr> surface = s, part_of_speech = [0x540D, 0x8A5E, 0x2C, 0x4E00, 0x822C] \<rparr>)
       (filter (\<lambda>s. s \<noteq> []) (split_on 0x20 text))"

definition example_metadata :: "pystr \<Rightarrow> pystr \<Rightarrow> bool" where
  "example_metadata t c = True"

definition example_page_1 :: pystr where
  "example_page_1 = [0x61, 0x62]"

definition example_page_2 :: pystr where
  "example_page_2 = [0x61, 0x62, 0x20, 0x63, 0x64, 0x65, 0x66, 0x67, 0x68]"

definition example_resources :: "pystr \<times> pdf list" where
  "example_resources =
     (example_dirname, [([0x61, 0x2E, 0x70, 0x64, 0x66], [example_page_1, example_page_2])])"

definition example_scanned :: "pystr \<times> pdf list" where
  "example_scanned =
     (example_dirname, [([0x61, 0x2E, 0x70, 0x64, 0x66], [[], []]),
                        ([0x62, 0x2E, 0x70, 0x64, 0x66], [example_page_2])])"

text \<open>Artifacts without a record list.\<close>

definition example_missing :: company_out where
  "example_missing =
     \<lparr> wordlist_txt = Some [0x61, 0x62, 0xA], wordlist_jsonl = None, worklog = None \<rparr>"

text \<open>An output root of three Entity directories, listed out of order: \<open>2_Zz\<close> without a
  record list, \<open>1_Xy\<close> and \<open>3_Ww\<close> with the artifacts of \<open>example_out\<close>.\<close>

definition example_batch :: "(pystr \<times> company_out) list" where
  "example_batch =
     [([0x32, 0x5F, 0x5A, 0x7A], example_missing), (example_dirname, example_out),
      ([0x33, 0x5F, 0x57, 0x77], example_out)]"

section \<open>The occurrences of a term and its first snippet\<close>

text \<open>
  For the statement about the Context Extractor: the accepted candidates that
  \<open>process_company_dir\<close> meets, in the order it meets them, each with the text of the page
  it was found on (PDFs without text and empty pages give none); and, for a term, the
  snippet of its first occurrence for which \<open>_extract_context\<close> gives a snippet.
\<close>

definition page_occurrences :: "(pystr \<Rightarrow> token list) \<Rightarrow> pystr \<Rightarrow> (pystr \<times> pystr) list" where
  "page_occurrences tokenize page_text =
     (if page_text = [] then []
      else map (\<lambda>raw_term. (page_text, raw_term)) (extract_candidates tokenize page_text))"

definition pdf_occurrences :: "(pystr \<Rightarrow> token list) \<Rightarrow> pdf \<Rightarrow> (pystr \<times> pystr) list" where
  "pdf_occurrences tokenize p =
     (if filter (\<lambda>t. t \<noteq> []) (snd p) = [] then []
      else concat (map (page_occurrences tokenize) (snd p)))"

definition occurrences :: "(pystr \<Rightarrow> token list) \<Rightarrow> pdf list \<Rightarrow> (pystr \<times> pystr) list" where
  "occurrences tokenize ps = concat (map (pdf_occurrences tokenize) ps)"

fun first_snippet :: "unicode_db \<Rightarrow> pystr \<Rightarrow> pystr \<Rightarrow> (pystr \<times> pystr) list \<Rightarrow> pystr option" where
  "first_snippet U company t [] = None"
| "first_snippet U company t ((page_text, raw_term) # rest) =
     (if normalize_candidate U raw_term = t \<and> \<not> looks_bad U t company
      then (case extract_context page_text t of
              None \<Rightarrow> first_snippet U company t rest
            | Some ctx \<Rightarrow> if ctx \<noteq> [] then Some ctx else first_snippet U company t rest)
      else first_snippet U company t rest)"

section \<open>The records of a word\<close>

text \<open>For the statement about the two lists: a word has a record among the decoded lines
  of the record list when some line is an object whose \<open>word\<close> is that string.\<close>

definition has_record :: "'v jline list \<Rightarrow> pystr \<Rightarrow> bool" where
  "has_record items w = (List.find (\<lambda>l. line_word l = Some (JStr w)) items \<noteq> None)"


section \<open>Properties\<close>

subsection \<open>The Phrase Builder\<close>

text \<open>
  Claim C2. The specification asks that, at every start position \<open>i\<close> of a token run,
  every window of 1 to 6 tokens starting at \<open>i\<close> is emitted as a candidate exactly when it
  holds at least two noun-kind tokens and its stripped text has at most 40 characters.
  \<open>flush_segment\<close> recomputes \<open>phrase\<close> in every iteration of its inner loop, as that
  needs, but its test and its \<open>append\<close> stand after the loop, so only the longest
  window at each position is tested. On the run of the three nouns \<open>A\<close>, \<open>B\<close>, \<open>C\<close>
  the window \<open>A B\<close> (two nouns, two characters) is not emitted: the candidates are
  \<open>A\<close>, \<open>ABC\<close>, \<open>B\<close>, \<open>BC\<close>, \<open>C\<close>.
\<close>

theorem flush_segment_longest_window_only:
  "flush_segment [([0x41], Noun), ([0x42], Noun), ([0x43], Noun)] =
     [[0x41], [0x41, 0x42, 0x43], [0x42], [0x42, 0x43], [0x43]]
   \<and> [0x41, 0x42] \<notin> set (flush_segment [([0x41], Noun), ([0x42], Noun), ([0x43], Noun)])"
  by code_simp

subsection \<open>The Candidate Filter\<close>

text \<open>
  What \<open>_looks_bad\<close> tests, it tests on \<open>term.strip()\<close>: for an accepted term the
  stripped text has between \<open>MIN_TERM_CHARS\<close> and \<open>MAX_TERM_CHARS\<close> characters, is no
  stopword, matches none of the five patterns and differs from the normalised entity
  name.
\<close>

lemma looks_bad_tests_stripped_text:
  assumes "\<not> looks_bad U t company"
  shows "2 \<le> length (strip t) \<and> length (strip t) \<le> 40
       \<and> strip t \<notin> set STOPWORDS
       \<and> \<not> fullmatch (RE_ONLY_DIGITS U) (strip t)
       \<and> \<not> fullmatch (RE_ONLY_NUM_PUNCT U) (strip t)
       \<and> \<not> fullmatch RE_ONLY_HIRAGANA (strip t)
       \<and> \<not> fullmatch (RE_DATE_LIKE U) (strip t)
       \<and> \<not> fullmatch (RE_SECTION_LIKE U) (strip t)
       \<and> strip t \<noteq> nfkc U company"
  using assms
  by (auto simp add: looks_bad_def Let_def MIN_TERM_CHARS_def MAX_TERM_CHARS_def
      split: if_splits)

text \<open>
  Claim C5 asks that every accepted term has at most 40 characters. In
  \<open>process_company_dir\<close> a raw candidate is stripped of white space and then of
  connectors, so white space that stood behind a leading connector stays at the start of
  the term; \<open>_looks_bad\<close> measures a stripped copy, and the loop counts the term as it
  is. The raw candidate made of a hyphen, a space and forty letters \<open>a\<close> becomes the term
  of a space and forty letters: it is accepted for the entity \<open>X\<close>, it has 41 characters,
  and it is the key that the counter receives.
\<close>

theorem looks_bad_accepts_padded_term:
  "normalize_candidate ascii_db (0x2D # 0x20 # replicate 40 0x61) = 0x20 # replicate 40 0x61
   \<and> \<not> looks_bad ascii_db (0x20 # replicate 40 0x61) [0x58]
   \<and> length (0x20 # replicate 40 (0x61::nat)) = 41
   \<and> fst (candidate_step ascii_db [0x58] (0x2D # 0x20 # replicate 40 0x61) ([], Map.empty)
            (0x2D # 0x20 # replicate 40 0x61))
       = [(0x20 # replicate 40 0x61, 1)]"
  by code_simp

text \<open>In short: a term of 41 characters is accepted.\<close>

theorem looks_bad_accepts_padded_term_witness:
  "\<not> looks_bad ascii_db (0x20 # replicate 40 0x61) [0x58]
   \<and> length (0x20 # replicate 40 (0x61::nat)) = 41"
  using looks_bad_accepts_padded_term by blast

subsection \<open>The Frequency Aggregator\<close>

text \<open>Helper facts: a list sorted by descending count has a count of at most 1 at
  position \<open>n\<close> exactly when at most \<open>n\<close> of its entries have a count of 2 or more; both
  the list of \<open>most_common\<close> and the ranked list are sorted so.\<close>

lemma sorted_desc_nth:
  assumes "sorted (map (\<lambda>kv. - int (snd kv)) L)" "i \<le> j" "j < length L"
  shows "snd (L ! j) \<le> snd (L ! i)"
proof -
  have "map (\<lambda>kv. - int (snd kv)) L ! i \<le> map (\<lambda>kv. - int (snd kv)) L ! j"
    using assms by (intro sorted_nth_mono) auto
  then show ?thesis using assms by simp
qed

lemma sorted_desc_cut:
  assumes s: "sorted (map (\<lambda>kv. - int (snd kv)) L)" and n: "n < length L"
  shows "(snd (L ! n) \<le> 1) = (length (filter (\<lambda>kv. 2 \<le> snd kv) L) \<le> n)"
proof
  assume low: "snd (L ! n) \<le> 1"
  have "\<not> 2 \<le> snd x" if "x \<in> set (drop n L)" for x
  proof -
    from that obtain k where k: "k < length (drop n L)" "x = drop n L ! k"
      by (auto simp: in_set_conv_nth)
    then have "x = L ! (n + k)" "n + k < length L" by auto
    with sorted_desc_nth [OF s, of n "n + k"] low show ?thesis by simp
  qed
  then have "filter (\<lambda>kv. 2 \<le> snd kv) (drop n L) = []" by (simp add: filter_empty_conv)
  then have "filter (\<lambda>kv. 2 \<le> snd kv) L = filter (\<lambda>kv. 2 \<le> snd kv) (take n L)"
    by (metis append_Nil2 append_take_drop_id filter_append)
  then have "length (filter (\<lambda>kv. 2 \<le> snd kv) L) \<le> length (take n L)"
    by (metis length_filter_le)
  then show "length (filter (\<lambda>kv. 2 \<le> snd kv) L) \<le> n" by simp
next
  assume few: "length (filter (\<lambda>kv. 2 \<le> snd kv) L) \<le> n"
  show "snd (L ! n) \<le> 1"
  proof (rule ccontr)
    assume "\<not> snd (L ! n) \<le> 1"
    then have hi: "2 \<le> snd (L ! n)" by simp
    have "2 \<le> snd x" if "x \<in> set (take (Suc n) L)" for x
    proof -
      from that obtain k where k: "k < length (take (Suc n) L)" "x = take (Suc n) L ! k"
        by (auto simp: in_set_conv_nth)
      then have "x = L ! k" "k \<le> n" by auto
      with sorted_desc_nth [OF s, of k n] hi n show ?thesis by simp
    qed
    then have "filter (\<lambda>kv. 2 \<le> snd kv) (take (Suc n) L) = take (Suc n) L" by simp
    moreover have "length (filter (\<lambda>kv. 2 \<le> snd kv) L) =
        length (filter (\<lambda>kv. 2 \<le> snd kv) (take (Suc n) L)) +
        length (filter (\<lambda>kv. 2 \<le> snd kv) (drop (Suc n) L))"
      by (metis append_take_drop_id filter_append length_append)
    ultimately have "Suc n \<le> length (filter (\<lambda>kv. 2 \<le> snd kv) L)"
      using n by simp
    with few show False by simp
  qed
qed

lemma sorted_most_common: "sorted (map (\<lambda>kv. - int (snd kv)) (sort_key (\<lambda>tc. - int (snd tc)) counter))"
  by (rule sorted_sort_key)

lemma sorted_terms_sorted: "sorted (map (\<lambda>kv. - int (snd kv)) (terms_sorted counter))"
proof -
  have "sorted (map (\<lambda>kv. (- int (snd kv), fst kv)) (terms_sorted counter))"
    unfolding terms_sorted_def by (rule sorted_sort_key)
  then have "sorted_wrt (\<lambda>a b. (- int (snd a), fst a) \<le> (- int (snd b), fst b))
               (terms_sorted counter)"
    by (simp add: sorted_map)
  then have "sorted_wrt (\<lambda>a b. - int (snd a) \<le> - int (snd b)) (terms_sorted counter)"
    by (rule sorted_wrt_mono_rel [rotated]) auto
  then show ?thesis by (simp add: sorted_map)
qed

lemma length_filter_sort_key: "length (filter P (sort_key f xs)) = length (filter P xs)"
  by (simp add: filter_sort)


lemma cutoff_code_eq_rank:
  assumes "0 < cap" "cap < length counter"
  shows "(snd (last (most_common cap counter)) \<le> 1) = (snd (terms_sorted counter ! (cap - 1)) \<le> 1)"
proof -
  let ?M = "sort_key (\<lambda>tc. - int (snd tc)) counter"
  let ?P = "\<lambda>kv::pystr \<times> nat. 2 \<le> snd kv"
  have n: "cap - 1 < length ?M" "cap - 1 < length (terms_sorted counter)"
    using assms by (simp_all add: terms_sorted_def)
  have len: "length (take cap ?M) = cap" using assms by simp
  then have "take cap ?M \<noteq> []" using assms by (metis length_0_conv less_numeral_extra(3))
  then have "last (take cap ?M) = take cap ?M ! (cap - 1)"
    using len by (simp add: last_conv_nth)
  then have "last (most_common cap counter) = ?M ! (cap - 1)"
    using assms by (simp add: most_common_def)
  then have "(snd (last (most_common cap counter)) \<le> 1) = (length (filter ?P ?M) \<le> cap - 1)"
    using sorted_desc_cut [OF sorted_most_common n(1)] by simp
  also have "\<dots> = (length (filter ?P (terms_sorted counter)) \<le> cap - 1)"
    by (simp add: length_filter_sort_key terms_sorted_def)
  also have "\<dots> = (snd (terms_sorted counter ! (cap - 1)) \<le> 1)"
    using sorted_desc_cut [OF sorted_terms_sorted n(2)] by simp
  finally show ?thesis .
qed

lemma cutoff_low_few:
  assumes "0 < cap" "cap < length counter" "snd (terms_sorted counter ! (cap - 1)) \<le> 1"
  shows "length (filter (\<lambda>kv. 2 \<le> snd kv) counter) < cap"
proof -
  have n: "cap - 1 < length (terms_sorted counter)"
    using assms by (simp add: terms_sorted_def)
  have "length (filter (\<lambda>kv. 2 \<le> snd kv) (terms_sorted counter)) \<le> cap - 1"
    using sorted_desc_cut [OF sorted_terms_sorted n] assms(3) by simp
  then show ?thesis using assms(1) by (simp add: length_filter_sort_key terms_sorted_def)
qed

text \<open>
  Claim C3. Take a frequency map with more than \<open>cap\<close> entries (\<open>cap\<close> is
  \<open>MAX_TERMS_PER_COMPANY = 10000\<close> in \<open>process_company_dir\<close>). If the count at rank
  \<open>cap\<close> of the ranked map is at most 1, the Term Set is the ranked list of exactly the
  terms of count 2 or more, and these are fewer than \<open>cap\<close>; otherwise it is the first
  \<open>cap\<close> entries of the ranked map, exactly \<open>cap\<close> of them. The code reads the cut-off
  count from \<open>most_common\<close>, which breaks ties by insertion order; the count at that rank
  is the same.
\<close>

theorem select_terms_cap_policy:
  assumes "0 < cap" and "cap < length counter"
  shows "select_terms cap counter =
      (if snd (terms_sorted counter ! (cap - 1)) \<le> 1
       then Inr (map fst (terms_sorted (filter (\<lambda>tc. 2 \<le> snd tc) counter)),
                 filter (\<lambda>tc. 2 \<le> snd tc) counter, [ManyCandidatesNote (length counter)])
       else Inr (map fst (take cap (terms_sorted counter)), counter, []))
    \<and> (snd (terms_sorted counter ! (cap - 1)) \<le> 1
         \<longrightarrow> length (filter (\<lambda>tc. 2 \<le> snd tc) counter) < cap)
    \<and> set (map fst (terms_sorted (filter (\<lambda>tc. 2 \<le> snd tc) counter)))
         = {t. \<exists>c. (t, c) \<in> set counter \<and> 2 \<le> c}
    \<and> length (take cap (terms_sorted counter)) = cap"
proof (intro conjI)
  have "length (most_common cap counter) = cap"
    using assms by (simp add: most_common_def)
  then have ne: "most_common cap counter \<noteq> []"
    using assms by (metis length_0_conv less_numeral_extra(3))
  then obtain e es where mc: "most_common cap counter = e # es"
    by (cases "most_common cap counter") auto
  show "select_terms cap counter =
      (if snd (terms_sorted counter ! (cap - 1)) \<le> 1
       then Inr (map fst (terms_sorted (filter (\<lambda>tc. 2 \<le> snd tc) counter)),
                 filter (\<lambda>tc. 2 \<le> snd tc) counter, [ManyCandidatesNote (length counter)])
       else Inr (map fst (take cap (terms_sorted counter)), counter, []))"
  proof (cases "snd (terms_sorted counter ! (cap - 1)) \<le> 1")
    case True
    then have c: "snd (last (e # es)) \<le> 1"
      using cutoff_code_eq_rank [OF assms] mc by simp
    have "length (terms_sorted (filter (\<lambda>tc. 2 \<le> snd tc) counter)) < cap"
      using cutoff_low_few [OF assms True] by (simp add: terms_sorted_def)
    then have "take cap (terms_sorted (filter (\<lambda>tc. 2 \<le> snd tc) counter))
               = terms_sorted (filter (\<lambda>tc. 2 \<le> snd tc) counter)"
      by simp
    with True c mc assms show ?thesis
      by (simp add: select_terms_def cap_counter_def top_terms_def Let_def)
  next
    case False
    then have c: "\<not> snd (last (e # es)) \<le> 1"
      using cutoff_code_eq_rank [OF assms] mc by simp
    with False mc assms show ?thesis
      by (simp add: select_terms_def cap_counter_def top_terms_def Let_def)
  qed
  show "snd (terms_sorted counter ! (cap - 1)) \<le> 1
         \<longrightarrow> length (filter (\<lambda>tc. 2 \<le> snd tc) counter) < cap"
    using cutoff_low_few [OF assms] by blast
  show "set (map fst (terms_sorted (filter (\<lambda>tc. 2 \<le> snd tc) counter)))
         = {t. \<exists>c. (t, c) \<in> set counter \<and> 2 \<le> c}"
    by (force simp: terms_sorted_def)
  show "length (take cap (terms_sorted counter)) = cap"
    using assms by (simp add: terms_sorted_def)
qed

text \<open>With a cap of 2: of \<open>a:1, b:3, c:1\<close> only \<open>b\<close> is kept.\<close>

theorem select_terms_cap_policy_witness:
  "(0::nat) < 2 \<and> 2 < length [([0x61], 1::nat), ([0x62], 3), ([0x63], 1)]
   \<and> snd (terms_sorted [([0x61], 1), ([0x62], 3), ([0x63], 1)] ! (2 - 1)) \<le> 1
   \<and> select_terms 2 [([0x61], 1), ([0x62], 3), ([0x63], 1)]
       = Inr ([[0x62]], [([0x62], 3)], [ManyCandidatesNote 3])"
proof -
  have h1: "(0::nat) < 2" by simp
  have h2: "2 < length [([0x61::nat], 1::nat), ([0x62], 3), ([0x63], 1)]" by simp
  have e: "snd (terms_sorted [([0x61], 1), ([0x62], 3), ([0x63], 1)] ! (2 - 1)) \<le> 1"
    by code_simp
  have f: "map fst (terms_sorted (filter (\<lambda>tc. 2 \<le> snd tc) [([0x61], 1), ([0x62], 3), ([0x63], 1)]))
           = [[0x62]]"
    by code_simp
  have g: "filter (\<lambda>tc. 2 \<le> snd tc) [([0x61::nat], 1::nat), ([0x62], 3), ([0x63], 1)] = [([0x62], 3)]"
    by simp
  from select_terms_cap_policy [OF h1 h2] e f g h1 h2 show ?thesis by simp
qed

text \<open>
  Claim C4. The Term Set holds terms of the frequency map, each once: all of them when the
  map has at most \<open>cap\<close> entries, else \<open>cap\<close> of the entries that the cap policy of C3
  leaves. It is ordered by descending frequency, and terms of equal frequency by
  ascending code-point order of the word; and every term left out for the cap comes
  after every term taken in that order. The counts \<open>C:5, A:3, B:3\<close> give the order
  \<open>C, A, B\<close>, also when they are entered as \<open>B:3, A:3, C:5\<close>. Frequencies are read in the
  frequency map, whose keys are distinct, as those of a \<open>Counter\<close> are.
\<close>

theorem term_set_order:
  assumes d: "distinct (map fst counter)"
    and sel: "select_terms cap counter = Inr (ts, counter', ns)"
  shows "sorted_wrt (\<lambda>a b. the (map_of counter b) < the (map_of counter a)
                        \<or> (the (map_of counter a) = the (map_of counter b) \<and> a < b)) ts
       \<and> distinct ts \<and> set ts \<subseteq> fst ` set counter' \<and> set counter' \<subseteq> set counter
       \<and> length ts = min cap (length counter')
       \<and> (\<forall>a\<in>set ts. \<forall>b\<in>fst ` set counter' - set ts.
             the (map_of counter b) < the (map_of counter a)
             \<or> (the (map_of counter a) = the (map_of counter b) \<and> a < b))
       \<and> (length counter \<le> cap \<longrightarrow> set ts = fst ` set counter)
       \<and> select_terms MAX_TERMS_PER_COMPANY [([0x43], 5), ([0x41], 3), ([0x42], 3)]
           = Inr ([[0x43], [0x41], [0x42]], [([0x43], 5), ([0x41], 3), ([0x42], 3)], [])
       \<and> select_terms MAX_TERMS_PER_COMPANY [([0x42], 3), ([0x41], 3), ([0x43], 5)]
           = Inr ([[0x43], [0x41], [0x42]], [([0x42], 3), ([0x41], 3), ([0x43], 5)], [])"
proof -
  let ?before = "\<lambda>a b. the (map_of counter b) < the (map_of counter a)
                        \<or> (the (map_of counter a) = the (map_of counter b) \<and> a < b)"
  let ?key = "\<lambda>kv::pystr \<times> nat. (- int (snd kv), fst kv)"
  let ?S = "terms_sorted counter'"
  let ?xs = "map fst ?S"
  have ex1: "select_terms MAX_TERMS_PER_COMPANY [([0x43], 5), ([0x41], 3), ([0x42], 3)]
           = Inr ([[0x43], [0x41], [0x42]], [([0x43], 5), ([0x41], 3), ([0x42], 3)], [])"
    by code_simp
  have ex2: "select_terms MAX_TERMS_PER_COMPANY [([0x42], 3), ([0x41], 3), ([0x43], 5)]
           = Inr ([[0x43], [0x41], [0x42]], [([0x42], 3), ([0x41], 3), ([0x43], 5)], [])"
    by code_simp
  from sel have ts: "ts = take cap ?xs"
    and c': "counter' = counter \<or> counter' = filter (\<lambda>tc. 2 \<le> snd tc) counter"
    and small: "length counter \<le> cap \<longrightarrow> counter' = counter"
    by (auto simp: select_terms_def cap_counter_def top_terms_def Let_def take_map
        split: sum.splits if_splits list.splits)
  from c' have sub: "set counter' \<subseteq> set counter" by auto
  from c' d have d': "distinct (map fst counter')" by (auto simp: distinct_map_filter)
  have sS: "sorted (map ?key ?S)"
    unfolding terms_sorted_def by (rule sorted_sort_key)
  have dxs: "distinct ?xs"
    using d' by (simp add: distinct_map terms_sorted_def)
  have setxs: "set ?xs = fst ` set counter'" by (simp add: terms_sorted_def)
  have val: "the (map_of counter (fst x)) = snd x" if "x \<in> set ?S" for x
  proof -
    from that have "x \<in> set counter'" by (simp add: terms_sorted_def)
    with sub have "x \<in> set counter" by blast
    then have "map_of counter (fst x) = Some (snd x)"
      using map_of_eq_Some_iff [OF d, of "fst x" "snd x"] by simp
    then show ?thesis by simp
  qed
  have sw: "sorted_wrt ?before ?xs"
    unfolding sorted_wrt_iff_nth_less
  proof (intro allI impI)
    fix i j assume ij: "i < j" "j < length ?xs"
    then have i: "i < length ?S" and j: "j < length ?S" by simp_all
    have "map ?key ?S ! i \<le> map ?key ?S ! j"
      using sS ij by (intro sorted_nth_mono) simp_all
    then have le: "?key (?S ! i) \<le> ?key (?S ! j)" using i j by simp
    have ne: "fst (?S ! i) \<noteq> fst (?S ! j)"
      using dxs ij i j by (metis length_map nat_neq_iff nth_eq_iff_index_eq nth_map)
    have vi: "the (map_of counter (fst (?S ! i))) = snd (?S ! i)"
      using i by (intro val nth_mem)
    have vj: "the (map_of counter (fst (?S ! j))) = snd (?S ! j)"
      using j by (intro val nth_mem)
    from le ne show "?before (?xs ! i) (?xs ! j)"
      using i j vi vj by auto
  qed
  have "sorted_wrt ?before (take cap ?xs @ drop cap ?xs)" using sw by simp
  then have ord: "sorted_wrt ?before (take cap ?xs)"
    and cross: "\<forall>a\<in>set (take cap ?xs). \<forall>b\<in>set (drop cap ?xs). ?before a b"
    unfolding sorted_wrt_append by blast+
  have "set ?xs = set (take cap ?xs) \<union> set (drop cap ?xs)"
    by (metis append_take_drop_id set_append)
  with cross setxs have out: "\<forall>a\<in>set ts. \<forall>b\<in>fst ` set counter' - set ts. ?before a b"
    unfolding ts by blast
  have dts: "distinct ts" unfolding ts using dxs by (rule distinct_take)
  have subts: "set ts \<subseteq> fst ` set counter'"
    unfolding ts using setxs by (metis set_take_subset)
  have len: "length ts = min cap (length counter')"
    unfolding ts by (simp add: terms_sorted_def min.commute)
  have all: "length counter \<le> cap \<longrightarrow> set ts = fst ` set counter"
    using small setxs unfolding ts by (auto simp: terms_sorted_def)
  from ord dts subts sub len out all ex1 ex2 show ?thesis unfolding ts by blast
qed

text \<open>The counts entered as \<open>B:3, A:3, C:5\<close>: all three terms are taken, in the order
  \<open>C, A, B\<close>.\<close>

theorem term_set_order_witness:
  "distinct (map fst [([0x42], 3::nat), ([0x41], 3), ([0x43::nat], 5)])
   \<and> select_terms MAX_TERMS_PER_COMPANY [([0x42], 3), ([0x41], 3), ([0x43], 5)]
        = Inr ([[0x43], [0x41], [0x42]], [([0x42], 3), ([0x41], 3), ([0x43], 5)], [])
   \<and> length [[0x43], [0x41], [0x42::nat]] = min MAX_TERMS_PER_COMPANY 3
   \<and> set [[0x43], [0x41], [0x42]] = fst ` set [([0x42], 3::nat), ([0x41], 3), ([0x43::nat], 5)]"
proof -
  have d: "distinct (map fst [([0x42], 3::nat), ([0x41], 3), ([0x43::nat], 5)])" by simp
  have s: "select_terms MAX_TERMS_PER_COMPANY [([0x42], 3), ([0x41], 3), ([0x43], 5)]
        = Inr ([[0x43], [0x41], [0x42]], [([0x42], 3), ([0x41], 3), ([0x43], 5)], [])"
    by code_simp
  have l: "length [([0x42], 3::nat), ([0x41], 3), ([0x43::nat], 5)] \<le> MAX_TERMS_PER_COMPANY"
    by (simp add: MAX_TERMS_PER_COMPANY_def)
  from term_set_order [OF d s] d s l show ?thesis by simp
qed

subsection \<open>The Refinement Filter: facts about its loops and the word file\<close>

text \<open>The first loop keeps a duplicate-free subsequence of the clean words, and leaves a
  duplicate-free list of clean words as it is; \<open>by_word\<close> is the first-match lookup in
  \<open>items_out\<close>; \<open>strip\<close> is idempotent; a list of stripped, non-empty words without
  line boundaries is read back from the text written for it; every record of
  \<open>items_out\<close> comes from an input record whose word is kept, and every such input
  record reaches \<open>items_out\<close>.\<close>

lemma keep_loop_spec:
  "\<exists>xs. keep_loop U c ws (seen, keep) = (seen \<union> set xs, keep @ xs) \<and> subseq xs ws \<and> distinct xs
        \<and> set xs \<inter> seen = {} \<and> (\<forall>x\<in>set xs. \<not> is_noisy_word U x c)"
proof (induction ws arbitrary: seen keep)
  case Nil
  then show ?case by simp
next
  case (Cons w ws)
  show ?case
  proof (cases "is_noisy_word U w c \<or> w \<in> seen")
    case True
    from Cons.IH [of seen keep] obtain xs where
      "keep_loop U c ws (seen, keep) = (seen \<union> set xs, keep @ xs)" "subseq xs ws" "distinct xs"
      "set xs \<inter> seen = {}" "\<forall>x\<in>set xs. \<not> is_noisy_word U x c" by blast
    with True show ?thesis by (intro exI [of _ xs]) auto
  next
    case False
    from Cons.IH [of "insert w seen" "keep @ [w]"] obtain xs where
      xs: "keep_loop U c ws (insert w seen, keep @ [w]) = (insert w seen \<union> set xs, (keep @ [w]) @ xs)"
      "subseq xs ws" "distinct xs"
      "set xs \<inter> insert w seen = {}" "\<forall>x\<in>set xs. \<not> is_noisy_word U x c" by blast
    with False show ?thesis by (intro exI [of _ "w # xs"]) auto
  qed
qed


lemma by_word_loop_eq:
  "by_word_loop xs m w = (case m w of Some v \<Rightarrow> Some v | None \<Rightarrow> map_of xs w)"
  by (induction xs m rule: by_word_loop.induct) (auto split: option.splits)

lemma by_word_loop_empty: "by_word_loop xs Map.empty = map_of xs"
  by (rule ext) (simp add: by_word_loop_eq)


lemma rstrip_by_prefix: "\<exists>v. t = rstrip_by p t @ v"
proof -
  have "rev t = takeWhile p (rev t) @ dropWhile p (rev t)" by simp
  then have "t = rev (dropWhile p (rev t)) @ rev (takeWhile p (rev t))"
    by (metis rev_append rev_rev_ident)
  then show ?thesis unfolding rstrip_by_def by blast
qed

lemma lstrip_rstrip_lstrip: "lstrip_by p (rstrip_by p (lstrip_by p s)) = rstrip_by p (lstrip_by p s)"
proof (cases "rstrip_by p (lstrip_by p s) = []")
  case True
  then show ?thesis by (simp add: lstrip_by_def)
next
  case False
  obtain v where v: "lstrip_by p s = rstrip_by p (lstrip_by p s) @ v"
    using rstrip_by_prefix by blast
  with False have ne: "lstrip_by p s \<noteq> []" by auto
  have "hd (rstrip_by p (lstrip_by p s)) = hd (lstrip_by p s)"
    using v False by (metis hd_append2)
  moreover have "\<not> p (hd (lstrip_by p s))"
    using ne unfolding lstrip_by_def by (rule hd_dropWhile)
  ultimately have "\<not> p (hd (rstrip_by p (lstrip_by p s)))" by simp
  then show ?thesis
    unfolding lstrip_by_def [of p "rstrip_by p (dropWhile p s)"]
    by (simp add: dropWhile_eq_self_iff lstrip_by_def)
qed

lemma rstrip_by_idem: "rstrip_by p (rstrip_by p t) = rstrip_by p t"
  by (simp add: rstrip_by_def)

lemma strip_by_idem: "strip_by p (strip_by p s) = strip_by p s"
  by (simp add: strip_by_def lstrip_rstrip_lstrip rstrip_by_idem)

lemma strip_idem: "strip (strip s) = strip s"
  by (simp add: strip_def strip_by_idem)

lemma load_words_stripped:
  assumes "w \<in> set (load_words txt)"
  shows "strip w = w \<and> w \<noteq> []"
  using assms by (auto simp: load_words_def strip_idem)


lemma after_break_other: "c \<noteq> 0x0D \<Longrightarrow> after_break c s = s"
  by (cases s) auto

lemma splitlines_line:
  "\<forall>c\<in>set w. \<not> is_linebreak c \<Longrightarrow> splitlines (w @ 0x0A # rest) = w # splitlines rest"
proof (induction w)
  case Nil
  have "is_linebreak 0x0A" by (simp add: is_linebreak_def)
  then show ?case by (simp add: after_break_other)
next
  case (Cons c w)
  then show ?case by simp
qed

lemma splitlines_write_words:
  "ws \<noteq> [] \<Longrightarrow> \<forall>w\<in>set ws. \<forall>c\<in>set w. \<not> is_linebreak c \<Longrightarrow> splitlines (write_words ws) = ws"
proof (induction "[0x0A::nat]" ws rule: join.induct)
  case 1
  then show ?case by simp
next
  case (2 w)
  then show ?case using splitlines_line [of w "[]"] by (simp add: write_words_def)
next
  case (3 w v ws)
  then have "splitlines (write_words (v # ws)) = v # ws" by simp
  moreover have "write_words (w # v # ws) = w @ 0x0A # write_words (v # ws)"
    by (simp add: write_words_def)
  ultimately show ?case using 3 splitlines_line [of w "write_words (v # ws)"] by simp
qed

lemma load_write_words:
  assumes "\<forall>w\<in>set ws. strip w = w \<and> w \<noteq> [] \<and> (\<forall>c\<in>set w. \<not> is_linebreak c)"
  shows "load_words (write_words ws) = ws"
proof (cases "ws = []")
  case True
  have "is_linebreak 0x0A" by (simp add: is_linebreak_def)
  then have "splitlines [0x0A] = [[]]" by simp
  moreover have "strip [] = []" by (simp add: strip_def strip_by_def lstrip_by_def rstrip_by_def)
  ultimately show ?thesis using True by (simp add: load_words_def write_words_def)
next
  case False
  then have "splitlines (write_words ws) = ws"
    using assms by (intro splitlines_write_words) auto
  moreover have "filter (\<lambda>line. strip line \<noteq> []) ws = ws" using assms by simp
  moreover have "map strip ws = ws" using assms by (simp add: map_idI)
  ultimately show ?thesis by (simp add: load_words_def)
qed

lemma splitlines_no_break: "l \<in> set (splitlines s) \<Longrightarrow> \<forall>c\<in>set l. \<not> is_linebreak c"
proof (induction s arbitrary: l rule: splitlines.induct)
  case 1
  then show ?case by simp
next
  case (2 d s)
  show ?case
  proof (cases "is_linebreak d")
    case True
    with 2 show ?thesis by auto
  next
    case False
    show ?thesis
    proof (cases "splitlines s")
      case Nil
      with 2 False show ?thesis by auto
    next
      case (Cons a list)
      with 2(2) [OF False, of a] 2(2) [OF False, of l] 2(3) False show ?thesis by auto
    qed
  qed
qed

lemma subseq_set_mem: "subseq xs ys \<Longrightarrow> x \<in> set xs \<Longrightarrow> x \<in> set ys"
  by (erule list_emb_set) auto

lemma set_strip_subset: "set (strip s) \<subseteq> set s"
proof -
  have "set (rev (dropWhile is_space (rev (dropWhile is_space s)))) \<subseteq> set (dropWhile is_space s)"
    by (metis set_dropWhileD set_rev subsetI)
  also have "\<dots> \<subseteq> set s" by (meson set_dropWhileD subsetI)
  finally show ?thesis by (simp add: strip_def strip_by_def lstrip_by_def rstrip_by_def)
qed

lemma load_words_clean:
  assumes "w \<in> set (load_words txt)"
  shows "strip w = w \<and> w \<noteq> [] \<and> (\<forall>c\<in>set w. \<not> is_linebreak c)"
proof -
  from assms obtain l where l: "l \<in> set (splitlines txt)" "w = strip l" "strip l \<noteq> []"
    by (auto simp: load_words_def)
  have "\<forall>c\<in>set w. \<not> is_linebreak c"
    using l set_strip_subset [of l] splitlines_no_break [OF l(1)] by blast
  with l show ?thesis by (simp add: strip_idem)
qed

lemma load_write_load: "ws = load_words txt \<Longrightarrow> subseq keep ws \<Longrightarrow> load_words (write_words keep) = keep"
proof (rule load_write_words, intro ballI)
  fix w assume "ws = load_words txt" "subseq keep ws" "w \<in> set keep"
  then have "w \<in> set (load_words txt)" by (auto dest: subseq_set_mem)
  then show "strip w = w \<and> w \<noteq> [] \<and> (\<forall>c\<in>set w. \<not> is_linebreak c)" by (rule load_words_clean)
qed





lemma drop_noisy_cases:
  "fst (drop_noisy_description U item) = item
   \<or> (\<exists>desc. dict_get item key_description = Some (JStr desc) \<and> is_noisy_description U desc
        \<and> fst (drop_noisy_description U item) = dict_pop key_description item)"
  by (auto simp: drop_noisy_description_def split: option.splits jvalue.splits)



lemma items_loop_sound:
  "items_loop truthy U K items (out, n) = Inr (out', n') \<Longrightarrow> (raw, r) \<in> set out'
   \<Longrightarrow> (raw, r) \<in> set out
       \<or> (\<exists>item. JObject item \<in> set items \<and> dict_get item key_word = Some (JStr raw)
             \<and> r = fst (drop_noisy_description U item) \<and> strip raw \<in> K \<and> strip raw \<noteq> [])"
proof (induction items arbitrary: out n)
  case Nil
  then show ?case by simp
next
  case (Cons l items)
  show ?case
  proof (cases l)
    case (JNotObject v)
    with Cons.prems show ?thesis by simp
  next
    case (JObject item)
    show ?thesis
    proof (cases "item_word truthy item")
      case (Inl e)
      with Cons.prems JObject show ?thesis by simp
    next
      case (Inr word)
      show ?thesis
      proof (cases "word = [] \<or> word \<notin> K")
        case True
        with Cons.prems JObject Inr
        have "items_loop truthy U K items (out, n) = Inr (out', n')" by simp
        from Cons.IH [OF this Cons.prems(2)] show ?thesis by auto
      next
        case False
        with Cons.prems JObject Inr obtain raw0 where
          raw0: "dict_get item key_word = Some (JStr raw0)"
          and run: "items_loop truthy U K items
                 (out @ [(raw0, fst (drop_noisy_description U item))],
                  n + snd (drop_noisy_description U item)) = Inr (out', n')"
          by (auto split: option.splits jvalue.splits)
        from raw0 Inr have w: "word = strip raw0" by (simp add: item_word_def)
        from Cons.IH [OF run Cons.prems(2)] JObject raw0 w False show ?thesis by auto
      qed
    qed
  qed
qed

lemma items_loop_complete:
  "items_loop truthy U K items (out, n) = Inr (out', n') \<Longrightarrow>
   set out \<subseteq> set out'
   \<and> (\<forall>item raw. JObject item \<in> set items \<longrightarrow> dict_get item key_word = Some (JStr raw)
         \<longrightarrow> strip raw \<in> K \<longrightarrow> strip raw \<noteq> [] \<longrightarrow> raw \<in> fst ` set out')"
proof (induction items arbitrary: out n)
  case Nil
  then show ?case by simp
next
  case (Cons l items)
  show ?case
  proof (cases l)
    case (JNotObject v)
    with Cons.prems show ?thesis by simp
  next
    case (JObject item)
    show ?thesis
    proof (cases "item_word truthy item")
      case (Inl e)
      with Cons.prems JObject show ?thesis by simp
    next
      case (Inr word)
      show ?thesis
      proof (cases "word = [] \<or> word \<notin> K")
        case True
        with Cons.prems JObject Inr
        have run: "items_loop truthy U K items (out, n) = Inr (out', n')" by simp
        have "\<not> (dict_get item key_word = Some (JStr raw) \<and> strip raw \<in> K \<and> strip raw \<noteq> [])" for raw
          using True Inr by (auto simp: item_word_def)
        with Cons.IH [OF run] JObject show ?thesis by auto
      next
        case False
        with Cons.prems JObject Inr obtain raw0 where
          raw0: "dict_get item key_word = Some (JStr raw0)"
          and run: "items_loop truthy U K items
                 (out @ [(raw0, fst (drop_noisy_description U item))],
                  n + snd (drop_noisy_description U item)) = Inr (out', n')"
          by (auto split: option.splits jvalue.splits)
        from Cons.IH [OF run] have
          a: "set (out @ [(raw0, fst (drop_noisy_description U item))]) \<subseteq> set out'"
          and b: "\<forall>item raw. JObject item \<in> set items \<longrightarrow> dict_get item key_word = Some (JStr raw)
         \<longrightarrow> strip raw \<in> K \<longrightarrow> strip raw \<noteq> [] \<longrightarrow> raw \<in> fst ` set out'" by blast+
        from a have "raw0 \<in> fst ` set out'" by force
        with a b JObject raw0 show ?thesis by auto
      qed
    qed
  qed
qed


lemma microfix_items_InrE:
  assumes "microfix_items truthy U company ws_in items_in = Inr (keep, recs, dropped)"
  obtains items_out where
    "keep = snd (keep_loop U company ws_in ({}, []))"
    "items_loop truthy U (set keep) items_in ([], 0) = Inr (items_out, dropped)"
    "recs = order_items (map_of items_out) keep"
  using assms
  by (auto simp: microfix_items_def Let_def by_word_loop_empty split: sum.splits)

lemma write_text_cases:
  "write_text s = (None, t) \<longleftrightarrow> utf8_encodable s \<and> t = s"
  "write_text s = (Some e, t) \<longleftrightarrow> \<not> utf8_encodable s \<and> e = UnicodeEncodeError \<and> t = []"
  by (auto simp: write_text_def)

lemma microfix_company_InrE:
  assumes "microfix_company J truthy U dirname out = (Inr st, out')"
  obtains wtxt jtxt items_in keep recs dropped where
    "wordlist_txt out = Some wtxt" "wordlist_jsonl out = Some jtxt"
    "load_jsonl J jtxt = Inr items_in"
    "microfix_items truthy U (company_name_from_dirname U dirname) (load_words wtxt) items_in
       = Inr (keep, recs, dropped)"
    "wordlist_txt out' = Some (write_words keep)"
    "wordlist_jsonl out' = Some (write_jsonl J recs)"
    "utf8_encodable (write_words keep)" "utf8_encodable (write_jsonl J recs)"
    "worklog out' = Some ((case worklog out of Some l \<Rightarrow> l
                           | None \<Rightarrow> [LogTitle (company_name_from_dirname U dirname)])
                          @ [MicrofixLog st])"
  using assms
  by (auto simp: microfix_company_def Let_def write_text_def
      split: option.splits sum.splits prod.splits if_splits)

lemma order_items_words:
  assumes "\<And>w r. w \<in> set keep \<Longrightarrow> m w = Some r \<Longrightarrow> f r = g w"
  shows "map f (order_items m keep) = map g (filter (\<lambda>w. m w \<noteq> None) keep)"
  using assms by (induction keep) (auto simp: order_items_def split: option.splits)

lemma order_items_mem:
  "r \<in> set (order_items m keep) \<Longrightarrow> \<exists>w\<in>set keep. m w = Some r"
  by (induction keep) (auto simp: order_items_def split: option.splits)

lemma keep_words_props:
  assumes "keep = snd (keep_loop U c (load_words wtxt) ({}, []))"
  shows "subseq keep (load_words wtxt) \<and> distinct keep \<and> (\<forall>w\<in>set keep. \<not> is_noisy_word U w c)
      \<and> load_words (write_words keep) = keep
      \<and> (\<forall>w\<in>set keep. strip w = w \<and> w \<noteq> [])"
proof -
  from keep_loop_spec [of U c "load_words wtxt" "{}" "[]"] assms
  have k: "subseq keep (load_words wtxt)" "distinct keep" "\<forall>w\<in>set keep. \<not> is_noisy_word U w c"
    by auto
  have "load_words (write_words keep) = keep" using k(1) by (intro load_write_load [OF refl])
  moreover have "\<forall>w\<in>set keep. strip w = w \<and> w \<noteq> []"
    using k(1) load_words_clean by (blast dest: subseq_set_mem)
  ultimately show ?thesis using k by blast
qed



lemma by_word_present:
  assumes loop: "items_loop truthy U (set keep) items_in ([], 0) = Inr (items_out, dropped)"
    and w: "w \<in> set keep" "strip w = w" "w \<noteq> []"
    and item: "JObject item \<in> set items_in" "dict_get item key_word = Some (JStr w)"
  shows "map_of items_out w \<noteq> None"
proof -
  from items_loop_complete [OF loop] item w have "w \<in> fst ` set items_out" by auto
  then show ?thesis by (simp add: map_of_eq_None_iff)
qed




















text \<open>Pass 2 on \<open>example_out\<close>: the words \<open>ab, cd\<close> are kept, the record of \<open>ab\<close>
  loses its description, the record of \<open>12\<close> goes with its word.\<close>

lemma microfix_example_run:
  "microfix_company example_json id ascii_db example_dirname example_out
     = (Inr example_stats, example_fixed)"
  by code_simp

lemma microfix_example_loaded:
  "load_jsonl example_json (write_jsonl example_json [rec_ab_short, rec_cd_fine, rec_12])
     = Inr [JObject rec_ab_short, JObject rec_cd_fine, JObject rec_12]"
  by code_simp

subsection \<open>The Refinement Filter invents nothing\<close>

text \<open>
  Claim C10. When \<open>microfix_company\<close> returns, the word list it has written, read as
  \<open>_load_words\<close> reads it, is a duplicate-free subsequence of the word list it has read,
  and the record list it has written is the text of records each of which is a record it
  has read, or that record without its \<open>description\<close> key.
\<close>

theorem microfix_company_never_invents:
  assumes "wordlist_txt out = Some wtxt" and "wordlist_jsonl out = Some jtxt"
    and "load_jsonl J jtxt = Inr items_in"
    and "microfix_company J truthy U dirname out = (Inr st, out')"
  shows "wordlist_txt out' \<noteq> None \<and> wordlist_jsonl out' \<noteq> None
     \<and> subseq (load_words (the (wordlist_txt out'))) (load_words wtxt)
     \<and> distinct (load_words (the (wordlist_txt out')))
     \<and> (\<exists>recs. the (wordlist_jsonl out') = write_jsonl J recs
           \<and> (\<forall>r\<in>set recs.
                 \<exists>item. JObject item \<in> set items_in
                      \<and> (r = item \<or> r = dict_pop key_description item)))"
proof -
  from assms(4) obtain wtxt' jtxt' items_in' keep recs dropped where r:
    "wordlist_txt out = Some wtxt'" "wordlist_jsonl out = Some jtxt'"
    "load_jsonl J jtxt' = Inr items_in'"
    "microfix_items truthy U (company_name_from_dirname U dirname) (load_words wtxt') items_in'
       = Inr (keep, recs, dropped)"
    "wordlist_txt out' = Some (write_words keep)"
    "wordlist_jsonl out' = Some (write_jsonl J recs)"
    by (rule microfix_company_InrE)
  with assms have eq: "wtxt' = wtxt" "items_in' = items_in" by simp_all
  from r(4) obtain items_out where i:
    "keep = snd (keep_loop U (company_name_from_dirname U dirname) (load_words wtxt') ({}, []))"
    "items_loop truthy U (set keep) items_in' ([], 0) = Inr (items_out, dropped)"
    "recs = order_items (map_of items_out) keep"
    by (rule microfix_items_InrE)
  note k = keep_words_props [OF i(1)]
  have "\<exists>item. JObject item \<in> set items_in
                \<and> (x = item \<or> x = dict_pop key_description item)"
    if "x \<in> set recs" for x
  proof -
    from that i(3) obtain w where "map_of items_out w = Some x" by (blast dest: order_items_mem)
    then have "(w, x) \<in> set items_out" by (rule map_of_SomeD)
    from items_loop_sound [OF i(2) this] obtain item where
      "JObject item \<in> set items_in'" "x = fst (drop_noisy_description U item)" by auto
    with drop_noisy_cases [of U item] eq show ?thesis by auto
  qed
  with k r eq show ?thesis by auto
qed

theorem microfix_company_never_invents_witness:
  "wordlist_txt example_out
     = Some [0x61, 0x62, 0xA, 0x63, 0x64, 0xA, 0x61, 0x62, 0xA, 0x31, 0x32, 0xA]
   \<and> wordlist_jsonl example_out
     = Some (write_jsonl example_json [rec_ab_short, rec_cd_fine, rec_12])
   \<and> load_jsonl example_json (write_jsonl example_json [rec_ab_short, rec_cd_fine, rec_12])
     = Inr [JObject rec_ab_short, JObject rec_cd_fine, JObject rec_12]
   \<and> microfix_company example_json id ascii_db example_dirname example_out
     = (Inr example_stats, example_fixed)
   \<and> subseq (load_words (the (wordlist_txt example_fixed)))
         (load_words [0x61, 0x62, 0xA, 0x63, 0x64, 0xA, 0x61, 0x62, 0xA, 0x31, 0x32, 0xA])
   \<and> distinct (load_words (the (wordlist_txt example_fixed)))"
proof -
  have t: "wordlist_txt example_out
     = Some [0x61, 0x62, 0xA, 0x63, 0x64, 0xA, 0x61, 0x62, 0xA, 0x31, 0x32, 0xA]"
    by (simp add: example_out_def)
  have j: "wordlist_jsonl example_out
     = Some (write_jsonl example_json [rec_ab_short, rec_cd_fine, rec_12])"
    by (simp add: example_out_def)
  from microfix_company_never_invents [OF t j microfix_example_loaded microfix_example_run]
    t j microfix_example_loaded microfix_example_run
  show ?thesis by blast
qed

subsection \<open>Dropping a noisy description\<close>




subsection \<open>Idempotence of the Refinement Filter\<close>

text \<open>When a record written by \<open>json.dumps\<close> holds a line boundary (U+2028, U+2029 or
  U+0085 inside a string: \<open>ensure_ascii=False\<close> writes them as they are), \<open>splitlines\<close>
  cuts its line. Pass 2 turns the escaped separator of \<open>example_escaped\<close> into the
  character, and a second run stops with \<open>JSONDecodeError\<close> before it writes.\<close>

lemma microfix_example_separator:
  "microfix_company example_json id ascii_db example_dirname example_escaped
     = (Inr \<lparr> words_in = 1, words_out = 1, jsonl_in = 1, jsonl_out = 1,
              desc_dropped = 0, words_dropped = 0 \<rparr>, example_unescaped)
   \<and> microfix_company example_json id ascii_db example_dirname example_unescaped
     = (Inl JSONDecodeError, example_unescaped)"
  by code_simp




subsection \<open>The Context Extractor\<close>

lemma first_snippet_append:
  "first_snippet U company t (xs @ ys)
     = (case first_snippet U company t xs of
          Some ctx \<Rightarrow> Some ctx | None \<Rightarrow> first_snippet U company t ys)"
  by (induction xs) (auto split: option.splits)

lemma candidate_step_context:
  "snd (candidate_step U company page_text st raw_term) t
     = (case snd st t of
          Some ctx \<Rightarrow> Some ctx
        | None \<Rightarrow> first_snippet U company t [(page_text, raw_term)])"
  by (auto simp: candidate_step_def Let_def split: option.splits)

lemma candidates_loop_context:
  "snd (foldl (candidate_step U company page_text) st raws) t
     = (case snd st t of
          Some ctx \<Rightarrow> Some ctx
        | None \<Rightarrow> first_snippet U company t (map (\<lambda>raw_term. (page_text, raw_term)) raws))"
proof (induction raws arbitrary: st)
  case Nil
  then show ?case by (simp split: option.splits)
next
  case (Cons raw raws)
  show ?case
    using candidate_step_context [of U company page_text st raw t]
    by (simp add: Cons.IH split: option.splits)
qed

lemma page_step_context:
  "snd (page_step tokenize U company st page_text) t
     = (case snd st t of
          Some ctx \<Rightarrow> Some ctx
        | None \<Rightarrow> first_snippet U company t (page_occurrences tokenize page_text))"
  by (simp add: page_step_def page_occurrences_def candidates_loop_context split: option.splits)

lemma pages_loop_context:
  "snd (foldl (page_step tokenize U company) st pages) t
     = (case snd st t of
          Some ctx \<Rightarrow> Some ctx
        | None \<Rightarrow> first_snippet U company t (concat (map (page_occurrences tokenize) pages)))"
proof (induction pages arbitrary: st)
  case Nil
  then show ?case by (simp split: option.splits)
next
  case (Cons page pages)
  show ?case
    using page_step_context [of tokenize U company st page t]
    by (simp add: Cons.IH first_snippet_append split: option.splits)
qed

lemma pdf_step_context:
  "first_context_of (pdf_step tokenize U company st p) t
     = (case first_context_of st t of
          Some ctx \<Rightarrow> Some ctx
        | None \<Rightarrow> first_snippet U company t (pdf_occurrences tokenize p))"
proof (cases "filter (\<lambda>t. t \<noteq> []) (snd p) = []")
  case True
  then show ?thesis
    by (simp add: pdf_step_def pdf_occurrences_def extract_pdf_pages_text_def Let_def
        split: option.splits)
next
  case False
  then show ?thesis
    using pages_loop_context [of tokenize U company "(counter_of st, first_context_of st)" "snd p" t]
    by (auto simp: pdf_step_def pdf_occurrences_def extract_pdf_pages_text_def Let_def
        split: option.splits prod.splits)
qed

lemma pdfs_loop_context:
  "first_context_of (foldl (pdf_step tokenize U company) st ps) t
     = (case first_context_of st t of
          Some ctx \<Rightarrow> Some ctx
        | None \<Rightarrow> first_snippet U company t (occurrences tokenize ps))"
proof (induction ps arbitrary: st)
  case Nil
  then show ?case by (simp add: occurrences_def split: option.splits)
next
  case (Cons p ps)
  show ?case
    using pdf_step_context [of tokenize U company st p t] Cons.IH [of "pdf_step tokenize U company st p"]
    by (simp add: occurrences_def first_snippet_append split: option.splits)
qed

text \<open>
  Claim C7 says that only the first occurrence of a term is captured. In
  \<open>example_resources\<close> the term \<open>ab\<close> occurs first on the page \<open>ab\<close>, where it is an
  accepted candidate and \<open>_extract_context\<close> gives nothing (the window has fewer than 6
  characters), so nothing is stored; its occurrence on the second page is captured, and
  the record of \<open>ab\<close> has the snippet of the second page.
\<close>

theorem later_occurrence_captured:
  "extract_candidates example_tokenize example_page_1 = [[0x61, 0x62]]
   \<and> \<not> looks_bad ascii_db (normalize_candidate ascii_db [0x61, 0x62]) [0x58, 0x79]
   \<and> extract_context example_page_1 [0x61, 0x62] = None
   \<and> extract_context example_page_2 [0x61, 0x62] = Some example_page_2
   \<and> process_company_dir example_tokenize ascii_db example_metadata example_resources
   = Inr \<lparr> res_company = [0x58, 0x79], res_company_dir = None,
           res_pdfs = [[0x61, 0x2E, 0x70, 0x64, 0x66]],
           res_terms = [[0x61, 0x62], [0x61, 0x62, 0x63, 0x64, 0x65, 0x66, 0x67, 0x68],
                        [0x63, 0x64, 0x65, 0x66, 0x67, 0x68]],
           res_entries = Some
             [[(key_word, JStr [0x61, 0x62]), (key_description, JStr example_page_2),
               (key_metadata, JOther True)],
              [(key_word, JStr [0x61, 0x62, 0x63, 0x64, 0x65, 0x66, 0x67, 0x68]),
               (key_metadata, JOther True)],
              [(key_word, JStr [0x63, 0x64, 0x65, 0x66, 0x67, 0x68]),
               (key_description, JStr example_page_2), (key_metadata, JOther True)]],
           res_pdf_infos = [\<lparr> path = [0x61, 0x2E, 0x70, 0x64, 0x66], pages_total = 2,
                              pages_with_text = 2 \<rparr>],
           res_stats = Some (3, 3), res_notes = [] \<rparr>"
  by code_simp

text \<open>
  Claim C7, as the code has it. After any run of the loop over the PDFs, the context
  stored for a term is the one that was stored before the run, if there was one: no later
  occurrence overwrites it. Otherwise it is the snippet of the first accepted occurrence
  of the term in the run for which \<open>_extract_context\<close> gives a snippet, occurrences for
  which it gives none being passed over; and nothing is stored when there is no such
  occurrence. The records that \<open>process_company_dir\<close> builds for a company carry exactly
  these contexts: the record of a term has the snippet of its first such occurrence in
  the PDFs of the directory, read in the order of their names.
\<close>

theorem first_context_is_first_snippet:
  "first_context_of (foldl (pdf_step tokenize U company) st ps) t
     = (case first_context_of st t of
          Some ctx \<Rightarrow> Some ctx
        | None \<Rightarrow> first_snippet U company t (occurrences tokenize ps))
   \<and> (process_company_dir tokenize U metadata_of dir = Inr r \<and> res_entries r = Some es
        \<longrightarrow> es = map (make_entry metadata_of (company_name_from_dirname U (fst dir))
                       (\<lambda>t. first_snippet U (company_name_from_dirname U (fst dir)) t
                              (occurrences tokenize (sort_key fst (snd dir)))))
                    (res_terms r))"
proof
  show "first_context_of (foldl (pdf_step tokenize U company) st ps) t
     = (case first_context_of st t of
          Some ctx \<Rightarrow> Some ctx
        | None \<Rightarrow> first_snippet U company t (occurrences tokenize ps))"
    by (rule pdfs_loop_context)
  let ?company = "company_name_from_dirname U (fst dir)"
  let ?st0 = "\<lparr> counter_of = [], first_context_of = Map.empty, pdf_infos_of = [],
                notes_of = [] \<rparr>"
  have "first_context_of (foldl (pdf_step tokenize U ?company) ?st0 (sort_key fst (snd dir)))
        = (\<lambda>t. first_snippet U ?company t (occurrences tokenize (sort_key fst (snd dir))))"
    by (rule ext) (simp add: pdfs_loop_context)
  then show "process_company_dir tokenize U metadata_of dir = Inr r \<and> res_entries r = Some es
        \<longrightarrow> es = map (make_entry metadata_of ?company
                       (\<lambda>t. first_snippet U ?company t
                              (occurrences tokenize (sort_key fst (snd dir)))))
                    (res_terms r)"
    by (auto simp: process_company_dir_def Let_def split: if_splits sum.splits)
qed

text \<open>In \<open>example_resources\<close> the two occurrences of \<open>ab\<close> give the snippet of the
  second page, and the records of the run carry the first snippets.\<close>

theorem first_context_is_first_snippet_witness:
  "first_context_of
     (foldl (pdf_step example_tokenize ascii_db [0x58, 0x79])
        \<lparr> counter_of = [], first_context_of = Map.empty, pdf_infos_of = [], notes_of = [] \<rparr>
        (snd example_resources)) [0x61, 0x62]
   = Some example_page_2
   \<and> (\<exists>r es. process_company_dir example_tokenize ascii_db example_metadata example_resources
                 = Inr r
         \<and> res_entries r = Some es
         \<and> es = map (make_entry example_metadata
                       (company_name_from_dirname ascii_db (fst example_resources))
                       (\<lambda>t. first_snippet ascii_db
                              (company_name_from_dirname ascii_db (fst example_resources)) t
                              (occurrences example_tokenize
                                 (sort_key fst (snd example_resources)))))
                  (res_terms r))"
proof -
  have s: "first_snippet ascii_db [0x58, 0x79] [0x61, 0x62]
          (occurrences example_tokenize (snd example_resources)) = Some example_page_2"
    by code_simp
  have p: "process_company_dir example_tokenize ascii_db example_metadata example_resources
   = Inr \<lparr> res_company = [0x58, 0x79], res_company_dir = None,
           res_pdfs = [[0x61, 0x2E, 0x70, 0x64, 0x66]],
           res_terms = [[0x61, 0x62], [0x61, 0x62, 0x63, 0x64, 0x65, 0x66, 0x67, 0x68],
                        [0x63, 0x64, 0x65, 0x66, 0x67, 0x68]],
           res_entries = Some
             [[(key_word, JStr [0x61, 0x62]), (key_description, JStr example_page_2),
               (key_metadata, JOther True)],
              [(key_word, JStr [0x61, 0x62, 0x63, 0x64, 0x65, 0x66, 0x67, 0x68]),
               (key_metadata, JOther True)],
              [(key_word, JStr [0x63, 0x64, 0x65, 0x66, 0x67, 0x68]),
               (key_description, JStr example_page_2), (key_metadata, JOther True)]],
           res_pdf_infos = [\<lparr> path = [0x61, 0x2E, 0x70, 0x64, 0x66], pages_total = 2,
                              pages_with_text = 2 \<rparr>],
           res_stats = Some (3, 3), res_notes = [] \<rparr>"
    by code_simp
  then obtain r es where r: "process_company_dir example_tokenize ascii_db example_metadata
      example_resources = Inr r" "res_entries r = Some es"
    by simp
  note t = first_context_is_first_snippet
      [where tokenize = example_tokenize and U = ascii_db and company = "[0x58, 0x79]"
         and st = "\<lparr> counter_of = [], first_context_of = Map.empty, pdf_infos_of = [],
                     notes_of = [] \<rparr>"
         and ps = "snd example_resources" and t = "[0x61, 0x62]"
         and metadata_of = example_metadata and dir = example_resources
         and r = r and es = es]
  from t s have "first_context_of
     (foldl (pdf_step example_tokenize ascii_db [0x58, 0x79])
        \<lparr> counter_of = [], first_context_of = Map.empty, pdf_infos_of = [], notes_of = [] \<rparr>
        (snd example_resources)) [0x61, 0x62]
   = Some example_page_2"
    by simp
  moreover from t r have "es = map (make_entry example_metadata
                       (company_name_from_dirname ascii_db (fst example_resources))
                       (\<lambda>t. first_snippet ascii_db
                              (company_name_from_dirname ascii_db (fst example_resources)) t
                              (occurrences example_tokenize
                                 (sort_key fst (snd example_resources)))))
                  (res_terms r)"
    by blast
  ultimately show ?thesis
    using r by blast
qed

subsection \<open>Errors that end the run and notes that do not\<close>

lemma select_terms_max_returns:
  "\<exists>x. select_terms MAX_TERMS_PER_COMPANY c = Inr x"
proof (cases "length c > MAX_TERMS_PER_COMPANY")
  case True
  then have "length (most_common MAX_TERMS_PER_COMPANY c) = MAX_TERMS_PER_COMPANY"
    by (simp add: most_common_def)
  then have "most_common MAX_TERMS_PER_COMPANY c \<noteq> []"
    by (auto simp: MAX_TERMS_PER_COMPANY_def)
  then obtain e es where "most_common MAX_TERMS_PER_COMPANY c = e # es"
    by (cases "most_common MAX_TERMS_PER_COMPANY c") auto
  then show ?thesis
    using True by (simp add: select_terms_def cap_counter_def Let_def)
next
  case False
  then show ?thesis
    by (simp add: select_terms_def cap_counter_def)
qed

lemma pdf_step_no_text:
  assumes "filter (\<lambda>t. t \<noteq> []) (snd p) = []"
  shows "pdf_step tokenize U company st p
         = st\<lparr> pdf_infos_of := pdf_infos_of st @ [snd (extract_pdf_pages_text p)],
               notes_of := notes_of st @ [NoTextNote (fst p)] \<rparr>"
  using assms by (simp add: pdf_step_def extract_pdf_pages_text_def)

lemma pdf_step_notes_mono:
  "n \<in> set (notes_of st) \<Longrightarrow> n \<in> set (notes_of (pdf_step tokenize U company st p))"
  by (simp add: pdf_step_def extract_pdf_pages_text_def Let_def split: prod.splits)

lemma pdfs_loop_notes_mono:
  "n \<in> set (notes_of st) \<Longrightarrow> n \<in> set (notes_of (foldl (pdf_step tokenize U company) st ps))"
proof (induction ps arbitrary: st)
  case Nil
  then show ?case by simp
next
  case (Cons q ps)
  from Cons.prems have "n \<in> set (notes_of (pdf_step tokenize U company st q))"
    by (rule pdf_step_notes_mono)
  then show ?case
    using Cons.IH by simp
qed

lemma pdfs_loop_no_text_note:
  assumes "p \<in> set ps" and "filter (\<lambda>t. t \<noteq> []) (snd p) = []"
  shows "NoTextNote (fst p) \<in> set (notes_of (foldl (pdf_step tokenize U company) st ps))"
  using assms(1)
proof (induction ps arbitrary: st)
  case Nil
  then show ?case by simp
next
  case (Cons q ps)
  show ?case
  proof (cases "q = p")
    case True
    have "NoTextNote (fst p) \<in> set (notes_of (pdf_step tokenize U company st p))"
      by (simp add: pdf_step_no_text [OF assms(2)])
    then show ?thesis
      using True by (simp add: pdfs_loop_notes_mono)
  next
    case False
    with Cons.prems have "p \<in> set ps" by simp
    then show ?thesis
      using Cons.IH by simp
  qed
qed

lemma process_company_dir_no_text_note:
  assumes "p \<in> set (snd dir)" and "filter (\<lambda>t. t \<noteq> []) (snd p) = []"
  shows "\<exists>r. process_company_dir tokenize U metadata_of dir = Inr r
             \<and> NoTextNote (fst p) \<in> set (res_notes r) \<and> res_entries r \<noteq> None"
proof -
  let ?company = "company_name_from_dirname U (fst dir)"
  let ?pdfs = "sort_key fst (snd dir)"
  let ?st = "foldl (pdf_step tokenize U ?company)
               \<lparr> counter_of = [], first_context_of = Map.empty, pdf_infos_of = [],
                 notes_of = [] \<rparr> ?pdfs"
  from assms(1) have mem: "p \<in> set ?pdfs"
    by simp
  then have ne: "?pdfs \<noteq> []"
    by (metis empty_iff empty_set)
  have nt: "NoTextNote (fst p) \<in> set (notes_of ?st)"
    using mem assms(2) by (rule pdfs_loop_no_text_note)
  obtain selected counter' ns
    where sel: "select_terms MAX_TERMS_PER_COMPANY (counter_of ?st) = Inr (selected, counter', ns)"
    using select_terms_max_returns [of "counter_of ?st"] by (metis prod_cases3)
  show ?thesis
    using ne nt sel by (simp add: process_company_dir_def Let_def)
qed

lemma microfix_company_missing:
  assumes "wordlist_txt out = None \<or> wordlist_jsonl out = None"
  shows "microfix_company J truthy U dirname out = (Inl FileNotFoundError, out)"
  using assms by (auto simp: microfix_company_def Let_def split: option.splits)

lemma microfix_loop_append:
  "microfix_loop J truthy U (pre @ rest) dirs done
   = (case microfix_loop J truthy U pre dirs done of
        (None, dirs1, done1) \<Rightarrow> microfix_loop J truthy U rest dirs1 done1
      | (Some e, r) \<Rightarrow> (Some e, r))"
proof (induction pre arbitrary: dirs "done")
  case Nil
  then show ?case by simp
next
  case (Cons d pre)
  show ?case
  proof (cases "microfix_company J truthy U (fst d) (snd d)")
    case (Pair res out')
    then show ?thesis
      using Cons.IH by (cases res) simp_all
  qed
qed

lemma microfix_loop_None:
  assumes "microfix_loop J truthy U ds dirs done = (None, dirs', done')" and "d \<in> set ds"
  shows "\<exists>st out'. microfix_company J truthy U (fst d) (snd d) = (Inr st, out')"
  using assms
proof (induction ds arbitrary: dirs "done")
  case Nil
  then show ?case by simp
next
  case (Cons q ds)
  obtain res out' where q: "microfix_company J truthy U (fst q) (snd q) = (res, out')"
    by (cases "microfix_company J truthy U (fst q) (snd q)") auto
  show ?case
  proof (cases res)
    case (Inl e)
    with q Cons.prems(1) show ?thesis by simp
  next
    case (Inr st)
    with q Cons.prems(1)
    have rest: "microfix_loop J truthy U ds (put_dir (fst q) out' dirs) (done @ [st])
                = (None, dirs', done')"
      by simp
    show ?thesis
    proof (cases "d = q")
      case True
      with q Inr show ?thesis by auto
    next
      case False
      with Cons.prems(2) have "d \<in> set ds" by simp
      with rest show ?thesis by (rule Cons.IH)
    qed
  qed
qed

lemma microfix_loop_length:
  "microfix_loop J truthy U ds dirs done = (e, dirs', done')
   \<Longrightarrow> length done' \<le> length done + length ds
       \<and> (e = None \<longrightarrow> length done' = length done + length ds)"
proof (induction ds arbitrary: dirs "done")
  case Nil
  then show ?case by auto
next
  case (Cons q ds)
  obtain res out' where q: "microfix_company J truthy U (fst q) (snd q) = (res, out')"
    by (cases "microfix_company J truthy U (fst q) (snd q)") auto
  show ?case
  proof (cases res)
    case (Inl x)
    with q Cons.prems show ?thesis by auto
  next
    case (Inr st)
    with q Cons.prems
    have "microfix_loop J truthy U ds (put_dir (fst q) out' dirs) (done @ [st]) = (e, dirs', done')"
      by simp
    from Cons.IH [OF this] show ?thesis by auto
  qed
qed

text \<open>
  Claim C8. Both entry points end with \<open>SystemExit\<close>, the output root untouched and no
  Entity treated, when their root directory does not exist or has no sub-directory.
  \<open>microfix_company\<close> raises \<open>FileNotFoundError\<close> and changes nothing when
  \<open>wordList.txt\<close> or \<open>wordList.jsonl\<close> does not exist; \<open>main\<close> of pass 2 does not catch
  it: when the Entities before such a directory, in the order of their names, have been
  treated, the run ends with \<open>FileNotFoundError\<close>, what those Entities left and their
  statistics, the directories after it untreated; and whenever some Entity directory lacks
  one of the two files the run ends with an exception before every Entity is treated. A
  PDF none of whose pages has text adds its \<open>PdfInfo\<close> and a note and the loop goes on
  with the next PDF, counter and contexts unchanged; \<open>process_company_dir\<close> then returns
  its result, with the record list and with the note among its notes.
\<close>

theorem root_and_artifact_errors_end_the_run:
  "main_extract tokenize U metadata_of J None root = (Some SystemExit, root)
   \<and> main_extract tokenize U metadata_of J (Some []) root = (Some SystemExit, root)
   \<and> main_microfix J truthy U None = (Some SystemExit, None, [])
   \<and> main_microfix J truthy U (Some []) = (Some SystemExit, Some [], [])
   \<and> (wordlist_txt out = None \<or> wordlist_jsonl out = None
        \<longrightarrow> microfix_company J truthy U dirname out = (Inl FileNotFoundError, out))
   \<and> (sort_key fst dirs = pre @ d # post
        \<and> microfix_loop J truthy U pre dirs [] = (None, dirs1, done1)
        \<and> (wordlist_txt (snd d) = None \<or> wordlist_jsonl (snd d) = None)
        \<longrightarrow> main_microfix J truthy U (Some dirs)
              = (Some FileNotFoundError, Some (put_dir (fst d) (snd d) dirs1), done1)
            \<and> length done1 = length pre)
   \<and> (d \<in> set dirs \<and> (wordlist_txt (snd d) = None \<or> wordlist_jsonl (snd d) = None)
        \<longrightarrow> fst (main_microfix J truthy U (Some dirs)) \<noteq> None
            \<and> length (snd (snd (main_microfix J truthy U (Some dirs)))) < length dirs)
   \<and> (filter (\<lambda>t. t \<noteq> []) (snd p) = []
        \<longrightarrow> foldl (pdf_step tokenize U company) st (p # ps)
              = foldl (pdf_step tokenize U company)
                  (st\<lparr> pdf_infos_of := pdf_infos_of st @ [snd (extract_pdf_pages_text p)],
                       notes_of := notes_of st @ [NoTextNote (fst p)] \<rparr>) ps)
   \<and> (p \<in> set (snd dir) \<and> filter (\<lambda>t. t \<noteq> []) (snd p) = []
        \<longrightarrow> (\<exists>r. process_company_dir tokenize U metadata_of dir = Inr r
                  \<and> NoTextNote (fst p) \<in> set (res_notes r) \<and> res_entries r \<noteq> None))"
proof -
  have a: "main_extract tokenize U metadata_of J None root = (Some SystemExit, root)"
    by (simp add: main_extract_def)
  have b: "main_extract tokenize U metadata_of J (Some []) root = (Some SystemExit, root)"
    by (simp add: main_extract_def)
  have c: "main_microfix J truthy U None = (Some SystemExit, None, [])"
    by (simp add: main_microfix_def)
  have d: "main_microfix J truthy U (Some []) = (Some SystemExit, Some [], [])"
    by (simp add: main_microfix_def)
  have e: "wordlist_txt out = None \<or> wordlist_jsonl out = None
        \<longrightarrow> microfix_company J truthy U dirname out = (Inl FileNotFoundError, out)"
    by (simp add: microfix_company_missing)
  have f: "sort_key fst dirs = pre @ d # post
        \<and> microfix_loop J truthy U pre dirs [] = (None, dirs1, done1)
        \<and> (wordlist_txt (snd d) = None \<or> wordlist_jsonl (snd d) = None)
        \<longrightarrow> main_microfix J truthy U (Some dirs)
              = (Some FileNotFoundError, Some (put_dir (fst d) (snd d) dirs1), done1)
            \<and> length done1 = length pre"
  proof (intro impI, elim conjE)
    assume s: "sort_key fst dirs = pre @ d # post"
      and l: "microfix_loop J truthy U pre dirs [] = (None, dirs1, done1)"
      and m: "wordlist_txt (snd d) = None \<or> wordlist_jsonl (snd d) = None"
    have "microfix_loop J truthy U (pre @ d # post) dirs []
          = (Some FileNotFoundError, put_dir (fst d) (snd d) dirs1, done1)"
      by (simp add: microfix_loop_append l microfix_company_missing [OF m])
    then have "main_microfix J truthy U (Some dirs)
               = (Some FileNotFoundError, Some (put_dir (fst d) (snd d) dirs1), done1)"
      using s by (simp add: main_microfix_def)
    moreover have "length done1 = length pre"
      using microfix_loop_length [OF l] by simp
    ultimately show "main_microfix J truthy U (Some dirs)
              = (Some FileNotFoundError, Some (put_dir (fst d) (snd d) dirs1), done1)
            \<and> length done1 = length pre"
      by simp
  qed
  have g: "d \<in> set dirs \<and> (wordlist_txt (snd d) = None \<or> wordlist_jsonl (snd d) = None)
        \<longrightarrow> fst (main_microfix J truthy U (Some dirs)) \<noteq> None
            \<and> length (snd (snd (main_microfix J truthy U (Some dirs)))) < length dirs"
  proof (intro impI, elim conjE)
    assume mem: "d \<in> set dirs"
      and m: "wordlist_txt (snd d) = None \<or> wordlist_jsonl (snd d) = None"
    let ?ds = "sort_key fst dirs"
    obtain x dirs' done' where l: "microfix_loop J truthy U ?ds dirs [] = (x, dirs', done')"
      by (cases "microfix_loop J truthy U ?ds dirs []") auto
    from mem have mem': "d \<in> set ?ds"
      by simp
    then have ne: "?ds \<noteq> []"
      by (metis empty_iff empty_set)
    have x: "x \<noteq> None"
    proof
      assume "x = None"
      with l have "microfix_loop J truthy U ?ds dirs [] = (None, dirs', done')"
        by simp
      from microfix_loop_None [OF this mem'] show False
        by (simp add: microfix_company_missing [OF m])
    qed
    have split: "\<exists>pre post. ?ds = pre @ d # post"
      using mem' by (simp add: split_list)
    then obtain pre post where s: "?ds = pre @ d # post"
      by blast
    obtain y dirs1 done1 where p: "microfix_loop J truthy U pre dirs [] = (y, dirs1, done1)"
      by (cases "microfix_loop J truthy U pre dirs []") auto
    have "length done' \<le> length pre"
    proof (cases y)
      case None
      with p l s have "done' = done1"
        by (simp add: microfix_loop_append microfix_company_missing [OF m])
      then show ?thesis
        using microfix_loop_length [OF p] by simp
    next
      case (Some err)
      with p l s have "done' = done1"
        by (simp add: microfix_loop_append)
      then show ?thesis
        using microfix_loop_length [OF p] by simp
    qed
    moreover have "length pre < length dirs"
    proof -
      have "length ?ds = length dirs" by simp
      with s show ?thesis by simp
    qed
    ultimately have "length done' < length dirs"
      by simp
    then show "fst (main_microfix J truthy U (Some dirs)) \<noteq> None
            \<and> length (snd (snd (main_microfix J truthy U (Some dirs)))) < length dirs"
      using x l ne by (simp add: main_microfix_def)
  qed
  have h: "filter (\<lambda>t. t \<noteq> []) (snd p) = []
        \<longrightarrow> foldl (pdf_step tokenize U company) st (p # ps)
              = foldl (pdf_step tokenize U company)
                  (st\<lparr> pdf_infos_of := pdf_infos_of st @ [snd (extract_pdf_pages_text p)],
                       notes_of := notes_of st @ [NoTextNote (fst p)] \<rparr>) ps"
    by (simp add: pdf_step_no_text)
  have i: "p \<in> set (snd dir) \<and> filter (\<lambda>t. t \<noteq> []) (snd p) = []
        \<longrightarrow> (\<exists>r. process_company_dir tokenize U metadata_of dir = Inr r
                  \<and> NoTextNote (fst p) \<in> set (res_notes r) \<and> res_entries r \<noteq> None)"
    using process_company_dir_no_text_note by blast
  from a b c d e f g h i show ?thesis
    by blast
qed

text \<open>
  On \<open>example_batch\<close> pass 2 treats \<open>1_Xy\<close>, ends with \<open>FileNotFoundError\<close> on \<open>2_Zz\<close>
  and leaves \<open>3_Ww\<close> as it was; on \<open>example_scanned\<close> pass 1 notes the PDF without text
  and takes the terms of the other PDF.
\<close>

theorem root_and_artifact_errors_end_the_run_witness:
  "microfix_company example_json id ascii_db [0x32, 0x5F, 0x5A, 0x7A] example_missing
     = (Inl FileNotFoundError, example_missing)
   \<and> main_microfix example_json id ascii_db (Some example_batch)
     = (Some FileNotFoundError,
        Some [([0x32, 0x5F, 0x5A, 0x7A], example_missing), (example_dirname, example_fixed),
              ([0x33, 0x5F, 0x57, 0x77], example_out)],
        [example_stats])
   \<and> (\<exists>r. process_company_dir example_tokenize ascii_db example_metadata example_scanned = Inr r
          \<and> NoTextNote [0x61, 0x2E, 0x70, 0x64, 0x66] \<in> set (res_notes r)
          \<and> res_terms r = [[0x61, 0x62], [0x61, 0x62, 0x63, 0x64, 0x65, 0x66, 0x67, 0x68],
                            [0x63, 0x64, 0x65, 0x66, 0x67, 0x68]])"
proof -
  let ?d = "([0x32, 0x5F, 0x5A, 0x7A], example_missing) :: pystr \<times> company_out"
  let ?p = "([0x61, 0x2E, 0x70, 0x64, 0x66], [[], []]) :: pdf"
  have m: "wordlist_txt example_missing = None \<or> wordlist_jsonl example_missing = None"
    by (simp add: example_missing_def)
  have s: "sort_key fst example_batch
           = [(example_dirname, example_out)] @ ?d # [([0x33, 0x5F, 0x57, 0x77], example_out)]"
    by code_simp
  have l: "microfix_loop example_json id ascii_db [(example_dirname, example_out)] example_batch []
           = (None, [([0x32, 0x5F, 0x5A, 0x7A], example_missing), (example_dirname, example_fixed),
                     ([0x33, 0x5F, 0x57, 0x77], example_out)], [example_stats])"
    by code_simp
  have pm: "?p \<in> set (snd example_scanned)"
    by (simp add: example_scanned_def)
  have pt: "filter (\<lambda>t. t \<noteq> []) (snd ?p) = []"
    by simp
  have terms: "\<And>r. process_company_dir example_tokenize ascii_db example_metadata example_scanned
                  = Inr r
               \<Longrightarrow> res_terms r = [[0x61, 0x62], [0x61, 0x62, 0x63, 0x64, 0x65, 0x66, 0x67, 0x68],
                                  [0x63, 0x64, 0x65, 0x66, 0x67, 0x68]]"
  proof -
    fix r
    have "map_sum id res_terms
            (process_company_dir example_tokenize ascii_db example_metadata example_scanned)
          = Inr [[0x61, 0x62], [0x61, 0x62, 0x63, 0x64, 0x65, 0x66, 0x67, 0x68],
                 [0x63, 0x64, 0x65, 0x66, 0x67, 0x68]]"
      by code_simp
    moreover assume "process_company_dir example_tokenize ascii_db example_metadata example_scanned
                  = Inr r"
    ultimately show "res_terms r = [[0x61, 0x62], [0x61, 0x62, 0x63, 0x64, 0x65, 0x66, 0x67, 0x68],
                                  [0x63, 0x64, 0x65, 0x66, 0x67, 0x68]]"
      by simp
  qed
  note t = root_and_artifact_errors_end_the_run
      [where J = example_json and truthy = id and U = ascii_db and out = example_missing
         and dirname = "[0x32, 0x5F, 0x5A, 0x7A]" and dirs = example_batch
         and pre = "[(example_dirname, example_out)]" and d = ?d
         and post = "[([0x33, 0x5F, 0x57, 0x77], example_out)]"
         and ?dirs1.0 = "[([0x32, 0x5F, 0x5A, 0x7A], example_missing), (example_dirname, example_fixed),
                     ([0x33, 0x5F, 0x57, 0x77], example_out)]"
         and ?done1.0 = "[example_stats]"
         and p = ?p and dir = example_scanned and tokenize = example_tokenize
         and metadata_of = example_metadata]
  from t m have c1: "microfix_company example_json id ascii_db [0x32, 0x5F, 0x5A, 0x7A]
      example_missing = (Inl FileNotFoundError, example_missing)"
    by blast
  from t s l m have c2: "main_microfix example_json id ascii_db (Some example_batch)
     = (Some FileNotFoundError,
        Some (put_dir (fst ?d) (snd ?d)
                [([0x32, 0x5F, 0x5A, 0x7A], example_missing), (example_dirname, example_fixed),
                 ([0x33, 0x5F, 0x57, 0x77], example_out)]),
        [example_stats])"
    by (simp del: put_dir.simps)
  from t pm pt obtain r where r:
    "process_company_dir example_tokenize ascii_db example_metadata example_scanned = Inr r"
    "NoTextNote (fst ?p) \<in> set (res_notes r)"
    by blast
  from c1 c2 r terms [OF r(1)] show ?thesis
    by auto
qed

end
